theory Spec2Isabelle
  imports Main "HOL-Library.Sublist"
begin

section \<open>Text, lines and frames\<close>

text \<open>
  Text is modelled as \<^typ>\<open>string\<close>; the protocol markers and every input named by the
  properties below are ASCII. \<open>data.toString()\<close> of a stdout fragment is the fragment's
  text.

  \<open>split_nl s\<close> is JavaScript's \<open>s.split('\n')\<close>: the pieces between newlines, always at
  least one piece (the empty text splits into one empty piece). \<open>split_acc cur s\<close> scans
  \<open>s\<close> with the piece \<open>cur\<close> begun.
\<close>

fun split_acc :: "string \<Rightarrow> string \<Rightarrow> string list" where
  "split_acc cur [] = [cur]"
| "split_acc cur (c # cs) =
     (if c = CHR 0x0A then cur # split_acc [] cs else split_acc (cur @ [c]) cs)"

definition split_nl :: "string \<Rightarrow> string list" where
  "split_nl s = split_acc [] s"

text \<open>\<open>line.startsWith(p)\<close> and \<open>line.substring(6)\<close>.\<close>

definition startsWith :: "string \<Rightarrow> string \<Rightarrow> bool" where
  "startsWith line p = prefix p line"

definition substring :: "string \<Rightarrow> nat \<Rightarrow> string" where
  "substring line n = drop n line"

text \<open>
  The three kinds of line the decoding loop acts on. The field \<open>decoded\<close> of a request
  (below) records, in order, which branch of the loop each processed line took.
\<close>

datatype frame = Chunk string | End | Error string

fun is_chunk :: "frame \<Rightarrow> bool" where
  "is_chunk (Chunk c) = True"
| "is_chunk End = False"
| "is_chunk (Error m) = False"

section \<open>Promises, the temporary script and the console\<close>

text \<open>
  The state of the promise returned by an operation. \<open>resolve\<close> and \<open>reject\<close> settle a
  pending promise and do nothing to a settled one (the semantics of a JavaScript promise).
\<close>

datatype 'r outcome = Pending | Resolved 'r | Rejected string

text \<open>
  The generated script on disk, and \<open>fs.unlinkSync\<close> on it: it removes a file that is
  there, and throws when the file is already gone or cannot be removed.
\<close>

datatype disk = OnDisk | Removed | Undeletable

datatype js_error = ENOENT | EACCES | SyntaxError | TypeError

fun unlinkSync :: "disk \<Rightarrow> js_error + disk" where
  "unlinkSync OnDisk = Inr Removed"
| "unlinkSync Removed = Inl ENOENT"
| "unlinkSync Undeletable = Inl EACCES"

fun error_text :: "js_error \<Rightarrow> string" where
  "error_text ENOENT = ''ENOENT''"
| "error_text EACCES = ''EACCES''"
| "error_text SyntaxError = ''SyntaxError''"
| "error_text TypeError = ''TypeError''"

text \<open>
  What every operation's promise executor shares: the promise, the script file and the
  lines written with \<open>console.error\<close>.
\<close>

record 'r child =
  promise :: "'r outcome"
  scriptFile :: disk
  console :: "string list"

definition resolve :: "'r \<Rightarrow> ('r, 'm) child_scheme \<Rightarrow> ('r, 'm) child_scheme" where
  "resolve v st = (if promise st = Pending then st\<lparr>promise := Resolved v\<rparr> else st)"

definition reject :: "string \<Rightarrow> ('r, 'm) child_scheme \<Rightarrow> ('r, 'm) child_scheme" where
  "reject msg st = (if promise st = Pending then st\<lparr>promise := Rejected msg\<rparr> else st)"

definition console_error :: "string \<Rightarrow> ('r, 'm) child_scheme \<Rightarrow> ('r, 'm) child_scheme" where
  "console_error msg st = st\<lparr>console := console st @ [msg]\<rparr>"

text \<open>
  \<open>try { fs.unlinkSync(scriptPath); } catch (e) { console.error('Failed to clean up temp
  file:', e); }\<close>. The body of the \<open>try\<close> is \<open>unlink_script\<close>; \<open>cleanup\<close> is the whole
  statement. A result \<open>Inl e\<close> is an exception leaving the statement.
\<close>

definition unlink_script :: "('r, 'm) child_scheme \<Rightarrow> js_error + ('r, 'm) child_scheme" where
  "unlink_script st =
     (case unlinkSync (scriptFile st) of
        Inl e \<Rightarrow> Inl e
      | Inr d \<Rightarrow> Inr (st\<lparr>scriptFile := d\<rparr>))"

definition cleanup :: "('r, 'm) child_scheme \<Rightarrow> js_error + ('r, 'm) child_scheme" where
  "cleanup st =
     (case unlink_script st of
        Inl e \<Rightarrow> Inr (console_error (''Failed to clean up temp file: '' @ error_text e) st)
      | Inr st' \<Rightarrow> Inr st')"

text \<open>The text of an exit code inside a template literal: a number, or \<open>null\<close>.\<close>

definition digit :: "nat \<Rightarrow> char" where
  "digit d = char_of (d + 48)"

fun decimal :: "nat \<Rightarrow> string" where
  "decimal n = (if 10 \<le> n then decimal (n div 10) @ [digit (n mod 10)] else [digit n])"

declare decimal.simps [simp del]

text \<open>\<open>String(code)\<close> for an integral number.\<close>

definition number_text :: "int \<Rightarrow> string" where
  "number_text i = (if 0 \<le> i then decimal (nat i) else CHR ''-'' # decimal (nat (- i)))"

fun string_of_code :: "int option \<Rightarrow> string" where
  "string_of_code None = ''null''"
| "string_of_code (Some i) = number_text i"

text \<open>The events a spawned process delivers to the listeners of an operation.\<close>

datatype event =
    StdoutData string
  | StderrData string
  | Close "int option"
  | ProcError string

section \<open>The streaming listeners\<close>

text \<open>
  Both streaming operations keep \<open>responseBuffer\<close> between stdout events. \<open>decoded\<close>
  is the record of the branches taken by the decoding loop, one frame per line acted on.
\<close>

record stream_req = "unit child" +
  responseBuffer :: string
  decoded :: "frame list"

definition mark :: "frame \<Rightarrow> 'm stream_req_scheme \<Rightarrow> 'm stream_req_scheme" where
  "mark f st = st\<lparr>decoded := decoded st @ [f]\<rparr>"

subsection \<open>AIAgentService.sendMessage\<close>

record sendMessage_req = stream_req +
  onChunk_calls :: "string list"

text \<open>The caller's \<open>onChunk\<close>: its invocations are recorded in order.\<close>

definition onChunk :: "string \<Rightarrow> sendMessage_req \<Rightarrow> sendMessage_req" where
  "onChunk chunk st = st\<lparr>onChunk_calls := onChunk_calls st @ [chunk]\<rparr>"

text \<open>The \<open>for (const line of lines)\<close> loop of the stdout listener, with its two \<open>return\<close>s.\<close>

fun process_lines :: "string list \<Rightarrow> sendMessage_req \<Rightarrow> js_error + sendMessage_req" where
  "process_lines [] st = Inr st"
| "process_lines (line # rest) st =
     (if startsWith line ''CHUNK:'' then
        process_lines rest (onChunk (substring line 6) (mark (Chunk (substring line 6)) st))
      else if line = ''END_STREAM'' then
        (case cleanup (mark End st) of
           Inl e \<Rightarrow> Inl e
         | Inr st' \<Rightarrow> Inr (resolve () st'))
      else if startsWith line ''ERROR:'' then
        Inr (reject (substring line 6) (mark (Error (substring line 6)) st))
      else process_lines rest st)"

text \<open>
  The stdout listener: append the fragment, split, keep the last piece
  (\<open>lines.pop() || ''\<close>) as the new buffer, and run the loop on the other pieces.
\<close>

definition on_stdout :: "string \<Rightarrow> sendMessage_req \<Rightarrow> js_error + sendMessage_req" where
  "on_stdout data st =
     (let lines = split_nl (responseBuffer st @ data)
      in process_lines (butlast lines) (st\<lparr>responseBuffer := last lines\<rparr>))"

definition on_stderr :: "string \<Rightarrow> sendMessage_req \<Rightarrow> js_error + sendMessage_req" where
  "on_stderr data st = Inr (console_error (''Python stderr: '' @ data) st)"

definition on_close :: "int option \<Rightarrow> sendMessage_req \<Rightarrow> js_error + sendMessage_req" where
  "on_close code st =
     (case cleanup st of
        Inl e \<Rightarrow> Inl e
      | Inr st' \<Rightarrow>
          (if code \<noteq> Some 0 then
             Inr (reject (''Python process exited with code '' @ string_of_code code) st')
           else Inr (resolve () st')))"

definition on_error :: "string \<Rightarrow> sendMessage_req \<Rightarrow> js_error + sendMessage_req" where
  "on_error err st = Inr (reject err st)"

fun on_event :: "event \<Rightarrow> sendMessage_req \<Rightarrow> js_error + sendMessage_req" where
  "on_event (StdoutData d) st = on_stdout d st"
| "on_event (StderrData d) st = on_stderr d st"
| "on_event (Close code) st = on_close code st"
| "on_event (ProcError err) st = on_error err st"

text \<open>
  The listeners run one event at a time, in the order of arrival; an exception leaving a
  listener ends the run.
\<close>

fun run :: "event list \<Rightarrow> sendMessage_req \<Rightarrow> js_error + sendMessage_req" where
  "run [] st = Inr st"
| "run (e # es) st = (case on_event e st of Inl x \<Rightarrow> Inl x | Inr st' \<Rightarrow> run es st')"

text \<open>The request right after \<open>spawn\<close>: the script written, the buffer empty, nothing settled.\<close>

definition sendMessage_init :: sendMessage_req where
  "sendMessage_init =
     \<lparr>promise = Pending, scriptFile = OnDisk, console = [],
      responseBuffer = [], decoded = [], onChunk_calls = []\<rparr>"

subsection \<open>ChatViewProvider.sendMessageToAgent\<close>

text \<open>
  The messages posted to the webview (their timestamps left out). \<open>view\<close> says whether
  \<open>this._view\<close> is set.
\<close>

datatype webview_msg = StreamChunk string | AddAssistantMessage string

record sendMessageToAgent_req = stream_req +
  fullResponse :: string
  view :: bool
  posted :: "webview_msg list"

definition postMessage :: "webview_msg \<Rightarrow> sendMessageToAgent_req \<Rightarrow> sendMessageToAgent_req" where
  "postMessage m st = st\<lparr>posted := posted st @ [m]\<rparr>"

text \<open>The body of the \<open>CHUNK:\<close> branch, and the statements of the \<open>END_STREAM\<close> branch
  before the clean-up.\<close>

definition stream_chunk :: "string \<Rightarrow> sendMessageToAgent_req \<Rightarrow> sendMessageToAgent_req" where
  "stream_chunk chunk st =
     (let st1 = (mark (Chunk chunk) st)\<lparr>fullResponse := fullResponse st @ chunk\<rparr>
      in if view st1 then postMessage (StreamChunk chunk) st1 else st1)"

definition final_message :: "sendMessageToAgent_req \<Rightarrow> sendMessageToAgent_req" where
  "final_message st =
     (let st1 = mark End st
      in if view st1 then postMessage (AddAssistantMessage (fullResponse st1)) st1 else st1)"

fun pv_process_lines ::
  "string list \<Rightarrow> sendMessageToAgent_req \<Rightarrow> js_error + sendMessageToAgent_req" where
  "pv_process_lines [] st = Inr st"
| "pv_process_lines (line # rest) st =
     (if startsWith line ''CHUNK:'' then
        pv_process_lines rest (stream_chunk (substring line 6) st)
      else if line = ''END_STREAM'' then
        (case cleanup (final_message st) of
           Inl e \<Rightarrow> Inl e
         | Inr st' \<Rightarrow> Inr (resolve () st'))
      else if startsWith line ''ERROR:'' then
        Inr (reject (substring line 6) (mark (Error (substring line 6)) st))
      else pv_process_lines rest st)"

definition pv_on_stdout ::
  "string \<Rightarrow> sendMessageToAgent_req \<Rightarrow> js_error + sendMessageToAgent_req" where
  "pv_on_stdout data st =
     (let lines = split_nl (responseBuffer st @ data)
      in pv_process_lines (butlast lines) (st\<lparr>responseBuffer := last lines\<rparr>))"

definition pv_on_close ::
  "int option \<Rightarrow> sendMessageToAgent_req \<Rightarrow> js_error + sendMessageToAgent_req" where
  "pv_on_close code st =
     (case cleanup st of
        Inl e \<Rightarrow> Inl e
      | Inr st' \<Rightarrow>
          (if code \<noteq> Some 0 then
             Inr (reject (''Python process exited with code '' @ string_of_code code) st')
           else Inr (resolve () st')))"

definition pv_on_error ::
  "string \<Rightarrow> sendMessageToAgent_req \<Rightarrow> js_error + sendMessageToAgent_req" where
  "pv_on_error err st = Inr (reject err st)"

text \<open>This operation has no stderr listener: stderr data changes nothing.\<close>

fun pv_on_event :: "event \<Rightarrow> sendMessageToAgent_req \<Rightarrow> js_error + sendMessageToAgent_req" where
  "pv_on_event (StdoutData d) st = pv_on_stdout d st"
| "pv_on_event (StderrData d) st = Inr st"
| "pv_on_event (Close code) st = pv_on_close code st"
| "pv_on_event (ProcError err) st = pv_on_error err st"

fun pv_run :: "event list \<Rightarrow> sendMessageToAgent_req \<Rightarrow> js_error + sendMessageToAgent_req" where
  "pv_run [] st = Inr st"
| "pv_run (e # es) st = (case pv_on_event e st of Inl x \<Rightarrow> Inl x | Inr st' \<Rightarrow> pv_run es st')"

text \<open>
  \<open>handleSendMessage\<close> calls \<open>sendMessageToAgent\<close> only when \<open>this._view\<close> is set, and
  nothing unsets it.
\<close>

definition sendMessageToAgent_init :: "bool \<Rightarrow> sendMessageToAgent_req" where
  "sendMessageToAgent_init v =
     \<lparr>promise = Pending, scriptFile = OnDisk, console = [],
      responseBuffer = [], decoded = [], fullResponse = [], view = v, posted = []\<rparr>"

text \<open>The chunks posted to the webview, in order.\<close>

fun streamed :: "webview_msg list \<Rightarrow> string list" where
  "streamed [] = []"
| "streamed (StreamChunk c # ms) = c # streamed ms"
| "streamed (AddAssistantMessage c # ms) = streamed ms"

section \<open>The one-shot operations\<close>

text \<open>
  \<open>clearSession\<close>, \<open>clearAgentSession\<close> and \<open>getSessionHistory\<close> collect the whole of
  stdout in \<open>output\<close> (here \<open>output'\<close>) and look at it once, in the close listener.
\<close>

record 'r oneshot_req = "'r child" +
  output' :: string

text \<open>\<open>output.includes(p)\<close>.\<close>

fun str_includes :: "string \<Rightarrow> string \<Rightarrow> bool" where
  "str_includes [] p = (p = [])"
| "str_includes (c # cs) p = (prefix p (c # cs) \<or> str_includes cs p)"

subsection \<open>AIAgentService.clearSession\<close>

definition clearSession_on_stdout :: "string \<Rightarrow> unit oneshot_req \<Rightarrow> js_error + unit oneshot_req" where
  "clearSession_on_stdout data st = Inr (st\<lparr>output' := output' st @ data\<rparr>)"

definition clearSession_on_close ::
  "int option \<Rightarrow> unit oneshot_req \<Rightarrow> js_error + unit oneshot_req" where
  "clearSession_on_close code st =
     (case cleanup st of
        Inl e \<Rightarrow> Inl e
      | Inr st' \<Rightarrow>
          (if code = Some 0 \<and> str_includes (output' st') ''SUCCESS'' then Inr (resolve () st')
           else Inr (reject ''Failed to clear session'' st')))"

definition clearSession_on_error :: "string \<Rightarrow> unit oneshot_req \<Rightarrow> js_error + unit oneshot_req" where
  "clearSession_on_error err st = Inr (reject err st)"

subsection \<open>ChatViewProvider.clearAgentSession\<close>

definition clearAgentSession_on_stdout ::
  "string \<Rightarrow> unit oneshot_req \<Rightarrow> js_error + unit oneshot_req" where
  "clearAgentSession_on_stdout data st = Inr (st\<lparr>output' := output' st @ data\<rparr>)"

definition clearAgentSession_on_close ::
  "int option \<Rightarrow> unit oneshot_req \<Rightarrow> js_error + unit oneshot_req" where
  "clearAgentSession_on_close code st =
     (case cleanup st of
        Inl e \<Rightarrow> Inl e
      | Inr st' \<Rightarrow>
          (if code = Some 0 \<and> str_includes (output' st') ''SUCCESS'' then Inr (resolve () st')
           else Inr (reject ''Failed to clear session'' st')))"

definition oneshot_init :: "'r oneshot_req" where
  "oneshot_init = \<lparr>promise = Pending, scriptFile = OnDisk, console = [], output' = []\<rparr>"

subsection \<open>AIAgentService.getSessionHistory\<close>

text \<open>
  The values \<open>JSON.parse\<close> returns. \<open>JSON.parse\<close> itself is a parameter of the model
  (\<open>None\<close> is its \<open>SyntaxError\<close>); an object is the list of its properties, one pair
  for each key. Of the three properties read below, one that an entry does not have reads
  as \<open>undefined\<close> (\<open>None\<close>), and reading a property of \<open>null\<close> throws.
\<close>

datatype json =
    JNull
  | JBool bool
  | JNumber int
  | JString string
  | JArray "json list"
  | JObject "(string \<times> json) list"

fun get_prop :: "json \<Rightarrow> string \<Rightarrow> js_error + json option" where
  "get_prop JNull k = Inl TypeError"
| "get_prop (JObject kvs) k = Inr (map_of kvs k)"
| "get_prop v k = Inr None"

datatype role = user | assistant

record ChatMessage =
  type :: role
  content :: "json option"
  timestamp :: "json option"

text \<open>The arrow function given to \<open>history.map\<close>.\<close>

definition to_message :: "json \<Rightarrow> js_error + ChatMessage" where
  "to_message entry =
     (case get_prop entry ''type'' of
        Inl e \<Rightarrow> Inl e
      | Inr t \<Rightarrow>
          (case get_prop entry ''content'' of
             Inl e \<Rightarrow> Inl e
           | Inr c \<Rightarrow>
               (case get_prop entry ''timestamp'' of
                  Inl e \<Rightarrow> Inl e
                | Inr ts \<Rightarrow>
                    Inr \<lparr>type = (if t = Some (JString ''human'') then user else assistant),
                         content = c, timestamp = ts\<rparr>)))"

fun map_entries :: "json list \<Rightarrow> js_error + ChatMessage list" where
  "map_entries [] = Inr []"
| "map_entries (entry # es) =
     (case to_message entry of
        Inl e \<Rightarrow> Inl e
      | Inr m \<Rightarrow> (case map_entries es of Inl e \<Rightarrow> Inl e | Inr ms \<Rightarrow> Inr (m # ms)))"

text \<open>\<open>history.map(...)\<close>: only an array has \<open>map\<close>.\<close>

fun history_map :: "json \<Rightarrow> js_error + ChatMessage list" where
  "history_map (JArray es) = map_entries es"
| "history_map v = Inl TypeError"

text \<open>\<open>output.trim()\<close>.\<close>

definition is_space :: "char \<Rightarrow> bool" where
  "is_space c = (c \<in> set [CHR 0x09, CHR 0x0A, CHR 0x0B, CHR 0x0C, CHR 0x0D, CHR 0x20, CHR 0xA0])"

definition trim :: "string \<Rightarrow> string" where
  "trim s = rev (dropWhile is_space (rev (dropWhile is_space s)))"

text \<open>The body of the inner \<open>try\<close> of the close listener, up to the value resolved with.\<close>

definition parse_history :: "(string \<Rightarrow> json option) \<Rightarrow> string \<Rightarrow> js_error + ChatMessage list" where
  "parse_history JSON_parse out =
     (case JSON_parse (trim out) of
        None \<Rightarrow> Inl SyntaxError
      | Some history \<Rightarrow> history_map history)"

definition getSessionHistory_on_stdout ::
  "string \<Rightarrow> (ChatMessage list) oneshot_req \<Rightarrow> js_error + (ChatMessage list) oneshot_req" where
  "getSessionHistory_on_stdout data st = Inr (st\<lparr>output' := output' st @ data\<rparr>)"

definition getSessionHistory_on_close ::
  "(string \<Rightarrow> json option) \<Rightarrow> int option \<Rightarrow> (ChatMessage list) oneshot_req
     \<Rightarrow> js_error + (ChatMessage list) oneshot_req" where
  "getSessionHistory_on_close JSON_parse code st =
     (case cleanup st of
        Inl e \<Rightarrow> Inl e
      | Inr st' \<Rightarrow>
          (if code = Some 0 then
             (case parse_history JSON_parse (output' st') of
                Inl error \<Rightarrow> Inr (reject ''Failed to parse history response'' st')
              | Inr messages \<Rightarrow> Inr (resolve messages st'))
           else Inr (reject (''Failed to get history, exit code: '' @ string_of_code code) st')))"

definition getSessionHistory_on_error ::
  "string \<Rightarrow> (ChatMessage list) oneshot_req \<Rightarrow> js_error + (ChatMessage list) oneshot_req" where
  "getSessionHistory_on_error err st = Inr (reject err st)"

section \<open>AIAgentService: the current session and the generated scripts\<close>

record AIAgentService =
  currentSessionId :: string
  agentPath :: string

text \<open>The field initialisers and the constructor.\<close>

definition new_AIAgentService :: AIAgentService where
  "new_AIAgentService =
     \<lparr>currentSessionId = ''vscode_session'',
      agentPath = ''/Volumes/workplace/SMUS-admin-agent''\<rparr>"

definition setSessionId :: "string \<Rightarrow> AIAgentService \<Rightarrow> AIAgentService" where
  "setSessionId sessionId this = this\<lparr>currentSessionId := sessionId\<rparr>"

definition getCurrentSessionId :: "AIAgentService \<Rightarrow> string" where
  "getCurrentSessionId this = currentSessionId this"

text \<open>
  \<open>sessionId || this.currentSessionId\<close>: an omitted argument is \<open>undefined\<close> (\<open>None\<close>),
  and the empty text is falsy as well.
\<close>

definition or_else :: "string option \<Rightarrow> string \<Rightarrow> string" where
  "or_else sessionId current =
     (case sessionId of None \<Rightarrow> current | Some s \<Rightarrow> (if s = [] then current else s))"

text \<open>The characters that cannot stand inside a string literal here.\<close>

definition sq :: string where
  "sq = [CHR 0x27]"

definition dq :: string where
  "dq = [CHR 0x22]"

definition backslash :: string where
  "backslash = [CHR 0x5C]"

definition unlines :: "string list \<Rightarrow> string" where
  "unlines ls = concat (map (\<lambda>l. l @ [CHR 0x0A]) ls)"

text \<open>\<open>message.replace(/"/g, '\\"')\<close>: a backslash before every double quote.\<close>

definition escape_quotes :: "string \<Rightarrow> string" where
  "escape_quotes message =
     concat (map (\<lambda>c. if c = CHR 0x22 then backslash @ dq else [c]) message)"

text \<open>The template literals of the three operations, for a given \<open>session\<close>.\<close>

definition chat_script :: "string \<Rightarrow> string \<Rightarrow> string \<Rightarrow> string" where
  "chat_script path message session =
     [CHR 0x0A] @ unlines
       [''import asyncio'',
        ''import sys'',
        ''import os'',
        ''sys.path.append('' @ sq @ path @ ''/src'' @ sq @ '')'',
        ''from smus_admin_agent import SMUSAdminAgent'',
        [],
        ''async def main():'',
        ''    try:'',
        ''        agent = SMUSAdminAgent()'',
        ''        async for chunk in agent.stream_response('' @ dq @ escape_quotes message @ dq
           @ '', '' @ dq @ session @ dq @ ''):'',
        ''            print(f'' @ dq @ ''CHUNK:{chunk}'' @ dq @ '', end='' @ dq @ dq
           @ '', flush=True)'',
        ''        print('' @ dq @ backslash @ ''nEND_STREAM'' @ dq @ '')'',
        ''    except Exception as e:'',
        ''        print(f'' @ dq @ ''ERROR:{str(e)}'' @ dq @ '')'',
        [],
        ''if __name__ == '' @ dq @ ''__main__'' @ dq @ '':'',
        ''    asyncio.run(main())'']"

definition history_script :: "string \<Rightarrow> string \<Rightarrow> string" where
  "history_script path session =
     [CHR 0x0A] @ unlines
       [''import sys'',
        ''import json'',
        ''sys.path.append('' @ sq @ path @ ''/src'' @ sq @ '')'',
        ''from smus_admin_agent import SMUSAdminAgent'',
        [],
        ''try:'',
        ''    agent = SMUSAdminAgent()'',
        ''    history = agent.get_session_history('' @ dq @ session @ dq @ '')'',
        ''    print(json.dumps(history))'',
        ''except Exception as e:'',
        ''    print(f'' @ dq @ ''ERROR:{str(e)}'' @ dq @ '')'']"

definition clear_script :: "string \<Rightarrow> string \<Rightarrow> string" where
  "clear_script path session =
     [CHR 0x0A] @ unlines
       [''import sys'',
        ''sys.path.append('' @ sq @ path @ ''/src'' @ sq @ '')'',
        ''from smus_admin_agent import SMUSAdminAgent'',
        [],
        ''try:'',
        ''    agent = SMUSAdminAgent()'',
        ''    agent.clear_session('' @ dq @ session @ dq @ '')'',
        ''    print('' @ dq @ ''SUCCESS'' @ dq @ '')'',
        ''except Exception as e:'',
        ''    print(f'' @ dq @ ''ERROR:{str(e)}'' @ dq @ '')'']"

text \<open>
  What each operation writes to its script file: \<open>session\<close> is the argument, or the
  current session.
\<close>

definition sendMessage_session :: "AIAgentService \<Rightarrow> string option \<Rightarrow> string" where
  "sendMessage_session this sessionId = or_else sessionId (currentSessionId this)"

definition sendMessage_pythonScript :: "AIAgentService \<Rightarrow> string \<Rightarrow> string option \<Rightarrow> string" where
  "sendMessage_pythonScript this message sessionId =
     chat_script (agentPath this) message (sendMessage_session this sessionId)"

definition getSessionHistory_session :: "AIAgentService \<Rightarrow> string option \<Rightarrow> string" where
  "getSessionHistory_session this sessionId = or_else sessionId (currentSessionId this)"

definition getSessionHistory_pythonScript :: "AIAgentService \<Rightarrow> string option \<Rightarrow> string" where
  "getSessionHistory_pythonScript this sessionId =
     history_script (agentPath this) (getSessionHistory_session this sessionId)"

definition clearSession_session :: "AIAgentService \<Rightarrow> string option \<Rightarrow> string" where
  "clearSession_session this sessionId = or_else sessionId (currentSessionId this)"

definition clearSession_pythonScript :: "AIAgentService \<Rightarrow> string option \<Rightarrow> string" where
  "clearSession_pythonScript this sessionId =
     clear_script (agentPath this) (clearSession_session this sessionId)"

section \<open>What the generated chat script prints\<close>

text \<open>
  \<open>main()\<close> of the chat script, in \<open>sendMessage\<close> and in \<open>sendMessageToAgent\<close> alike:
  every chunk of the agent's stream is printed as \<open>CHUNK:\<close> and the chunk with
  \<open>end=""\<close>, so with no newline after it; when the stream is exhausted,
  \<open>print("\nEND_STREAM")\<close> writes a newline, the marker and a newline; when the stream
  raises, \<open>print(f"ERROR:{str(e)}")\<close> writes the message and a newline.
\<close>

datatype stream_end = Exhausted | Raised string

definition script_stdout :: "string list \<Rightarrow> stream_end \<Rightarrow> string" where
  "script_stdout chunks ending =
     concat (map (\<lambda>chunk. ''CHUNK:'' @ chunk) chunks)
     @ (case ending of
          Exhausted \<Rightarrow> [CHR 0x0A] @ ''END_STREAM'' @ [CHR 0x0A]
        | Raised e \<Rightarrow> ''ERROR:'' @ e @ [CHR 0x0A])"

section \<open>Notions used by the properties\<close>

text \<open>The lines on which the decoding loop returns.\<close>

definition is_terminal :: "string \<Rightarrow> bool" where
  "is_terminal line = (line = ''END_STREAM'' \<or> startsWith line ''ERROR:'')"

text \<open>The first frame of a sequence that is not a chunk.\<close>

fun first_terminal :: "frame list \<Rightarrow> frame option" where
  "first_terminal [] = None"
| "first_terminal (Chunk c # fs) = first_terminal fs"
| "first_terminal (f # fs) = Some f"

text \<open>The outcome a first terminal frame stands for.\<close>

fun settled_by :: "frame option \<Rightarrow> unit outcome" where
  "settled_by None = Pending"
| "settled_by (Some End) = Resolved ()"
| "settled_by (Some (Error m)) = Rejected m"
| "settled_by (Some (Chunk c)) = Pending"

text \<open>The state a \<open>cleanup\<close> leaves.\<close>

definition after_cleanup :: "('r, 'm) child_scheme \<Rightarrow> ('r, 'm) child_scheme" where
  "after_cleanup st =
     (case unlinkSync (scriptFile st) of
        Inl e \<Rightarrow> console_error (''Failed to clean up temp file: '' @ error_text e) st
      | Inr d \<Rightarrow> st\<lparr>scriptFile := d\<rparr>)"

text \<open>
  The two streaming requests agree: same promise, file, buffer and decoded frames, and the
  chunks posted to the webview (when there is one) are the chunks given to \<open>onChunk\<close>.
\<close>

definition agree :: "sendMessageToAgent_req \<Rightarrow> sendMessage_req \<Rightarrow> bool" where
  "agree p s =
     (promise p = promise s \<and> scriptFile p = scriptFile s
      \<and> responseBuffer p = responseBuffer s \<and> decoded p = decoded s
      \<and> streamed (posted p) = (if view p then onChunk_calls s else []))"

text \<open>
  Two requests alike in all but the script file and the console: what the caller can
  observe of a request is the same in both.
\<close>

definition alike :: "sendMessage_req \<Rightarrow> sendMessage_req \<Rightarrow> bool" where
  "alike a b =
     (promise a = promise b \<and> responseBuffer a = responseBuffer b
      \<and> decoded a = decoded b \<and> onChunk_calls a = onChunk_calls b)"

definition pv_alike :: "sendMessageToAgent_req \<Rightarrow> sendMessageToAgent_req \<Rightarrow> bool" where
  "pv_alike a b =
     (promise a = promise b \<and> responseBuffer a = responseBuffer b
      \<and> decoded a = decoded b \<and> fullResponse a = fullResponse b
      \<and> view a = view b \<and> posted a = posted b)"

section \<open>Lemmas: splitting into lines\<close>

lemma split_acc_cur: "split_acc cur s = (cur @ hd (split_acc [] s)) # tl (split_acc [] s)"
proof (induction s arbitrary: cur)
  case Nil
  show ?case by simp
next
  case (Cons c cs)
  show ?case
    using Cons [of "cur @ [c]"] Cons [of "[c]"] by simp
qed

lemma split_nl_Nil [simp]: "split_nl [] = [Nil]"
  by (simp add: split_nl_def)

lemma split_nl_Cons [simp]:
  "split_nl (c # cs) =
     (if c = CHR 0x0A then [] # split_nl cs
      else (c # hd (split_nl cs)) # tl (split_nl cs))"
  using split_acc_cur [of "[c]" cs] by (simp add: split_nl_def)

lemma split_nl_nonempty [simp]: "split_nl s \<noteq> []"
  by (induction s) auto

lemma split_nl_append:
  "split_nl (a @ b) = butlast (split_nl a) @ split_nl (last (split_nl a) @ b)"
proof (induction a)
  case Nil
  show ?case by simp
next
  case (Cons c a)
  show ?case
  proof (cases "c = CHR 0x0A")
    case True
    with Cons show ?thesis by simp
  next
    case False
    obtain h t where X: "split_nl a = h # t"
      by (cases "split_nl a") auto
    show ?thesis
    proof (cases t)
      case Nil
      with X Cons False show ?thesis by simp
    next
      case (Cons u v)
      with X Cons.IH False show ?thesis by simp
    qed
  qed
qed

lemma last_split_nl_no_newline: "CHR 0x0A \<notin> set (last (split_nl s))"
proof (induction s)
  case Nil
  show ?case by simp
next
  case (Cons c s)
  obtain h t where X: "split_nl s = h # t"
    by (cases "split_nl s") auto
  with Cons show ?case by (cases t) auto
qed

lemma split_nl_no_newline: "CHR 0x0A \<notin> set s \<Longrightarrow> split_nl s = [s]"
  by (induction s) auto

section \<open>Lemmas: the decoding loop\<close>

lemma cleanup_eq: "cleanup st = Inr (after_cleanup st)"
  by (cases "scriptFile st") (simp_all add: cleanup_def after_cleanup_def unlink_script_def)

lemma after_cleanup_promise [simp]: "promise (after_cleanup st) = promise st"
  by (cases "scriptFile st") (simp_all add: after_cleanup_def console_error_def)

lemma after_cleanup_buffer [simp]: "responseBuffer (after_cleanup st) = responseBuffer st"
  by (cases "scriptFile st") (simp_all add: after_cleanup_def console_error_def)

lemma after_cleanup_decoded [simp]: "decoded (after_cleanup st) = decoded st"
  by (cases "scriptFile st") (simp_all add: after_cleanup_def console_error_def)

lemma after_cleanup_calls [simp]: "onChunk_calls (after_cleanup st) = onChunk_calls st"
  by (cases "scriptFile st") (simp_all add: after_cleanup_def console_error_def)

lemma after_cleanup_buffer_upd:
  "after_cleanup (st\<lparr>responseBuffer := b\<rparr>) = (after_cleanup st)\<lparr>responseBuffer := b\<rparr>"
  by (cases "scriptFile st") (simp_all add: after_cleanup_def console_error_def)

lemma onChunk_buffer_upd:
  "onChunk c (st\<lparr>responseBuffer := b\<rparr>) = (onChunk c st)\<lparr>responseBuffer := b\<rparr>"
  by (simp add: onChunk_def)

lemma mark_buffer_upd:
  "mark f (st\<lparr>responseBuffer := b\<rparr>) = (mark f st)\<lparr>responseBuffer := b\<rparr>"
  by (simp add: mark_def)

lemma resolve_buffer_upd:
  "resolve v (st\<lparr>responseBuffer := b\<rparr>) = (resolve v st)\<lparr>responseBuffer := b\<rparr>"
  by (simp add: resolve_def)

lemma reject_buffer_upd:
  "reject m (st\<lparr>responseBuffer := b\<rparr>) = (reject m st)\<lparr>responseBuffer := b\<rparr>"
  by (simp add: reject_def)

lemmas buffer_upd =
  onChunk_buffer_upd mark_buffer_upd resolve_buffer_upd reject_buffer_upd after_cleanup_buffer_upd

lemma onChunk_buffer [simp]: "responseBuffer (onChunk c st) = responseBuffer st"
  by (simp add: onChunk_def)

lemma mark_buffer [simp]: "responseBuffer (mark f st) = responseBuffer st"
  by (simp add: mark_def)

lemma resolve_buffer [simp]: "responseBuffer (resolve v st) = responseBuffer st"
  by (simp add: resolve_def)

lemma reject_buffer [simp]: "responseBuffer (reject m st) = responseBuffer st"
  by (simp add: reject_def)

lemma process_lines_buffer_upd:
  "process_lines ls (st\<lparr>responseBuffer := b\<rparr>)
     = map_sum id (\<lambda>s. s\<lparr>responseBuffer := b\<rparr>) (process_lines ls st)"
  by (induction ls arbitrary: st) (simp_all add: buffer_upd cleanup_eq)

lemma process_lines_Inr:
  "\<exists>s. process_lines ls st = Inr s \<and> responseBuffer s = responseBuffer st"
proof (induction ls arbitrary: st)
  case Nil
  show ?case by simp
next
  case (Cons l ls)
  have chunk: "\<exists>s. process_lines ls (onChunk (substring l 6) (mark (Chunk (substring l 6)) st)) = Inr s
                 \<and> responseBuffer s = responseBuffer st"
    using Cons [of "onChunk (substring l 6) (mark (Chunk (substring l 6)) st)"] by simp
  show ?case using chunk Cons [of st] by (simp add: cleanup_eq)
qed

lemma process_lines_append:
  "\<forall>l\<in>set A. \<not> is_terminal l \<Longrightarrow>
     process_lines (A @ B) st = (case process_lines A st of Inl e \<Rightarrow> Inl e | Inr s \<Rightarrow> process_lines B s)"
  by (induction A arbitrary: st) (simp_all add: is_terminal_def)

lemma run_append:
  "run (xs @ ys) st = (case run xs st of Inl e \<Rightarrow> Inl e | Inr s \<Rightarrow> run ys s)"
  by (induction xs arbitrary: st) (simp_all split: sum.splits)

lemma feed_fragments:
  assumes "CHR 0x0A \<notin> set (responseBuffer st)"
    and "\<forall>l\<in>set (butlast (butlast (split_nl (responseBuffer st @ concat fs)))). \<not> is_terminal l"
  shows "run (map StdoutData fs) st
           = process_lines (butlast (split_nl (responseBuffer st @ concat fs)))
               (st\<lparr>responseBuffer := last (split_nl (responseBuffer st @ concat fs))\<rparr>)"
  using assms
proof (induction fs arbitrary: st)
  case Nil
  then show ?case by (simp add: split_nl_no_newline)
next
  case (Cons f fs)
  define L1 where "L1 = split_nl (responseBuffer st @ f)"
  define A where "A = butlast L1"
  define L2 where "L2 = split_nl (last L1 @ concat fs)"
  have total: "split_nl (responseBuffer st @ f @ concat fs) = A @ L2"
    using split_nl_append [of "responseBuffer st @ f" "concat fs"]
    by (simp add: L1_def A_def L2_def)
  have L2_ne: "L2 \<noteq> []" by (simp add: L2_def)
  obtain s1 where s1: "process_lines A (st\<lparr>responseBuffer := last L1\<rparr>) = Inr s1"
    and s1_buf: "responseBuffer s1 = last L1"
    using process_lines_Inr [of A "st\<lparr>responseBuffer := last L1\<rparr>"] by auto
  have step: "on_stdout f st = Inr s1"
    using s1 by (simp add: on_stdout_def Let_def L1_def A_def)
  have no_nl: "CHR 0x0A \<notin> set (responseBuffer s1)"
    by (simp add: s1_buf L1_def last_split_nl_no_newline)
  have bb: "butlast (butlast (A @ L2)) = (if butlast L2 = [] then butlast A else A @ butlast (butlast L2))"
    using L2_ne by (simp add: butlast_append)
  show ?case
  proof (cases "butlast L2 = []")
    case True
    have "run (map StdoutData fs) s1
           = process_lines (butlast L2) (s1\<lparr>responseBuffer := last L2\<rparr>)"
      using Cons.IH [OF no_nl] True by (simp add: s1_buf L2_def)
    then have "run (map StdoutData (f # fs)) st = Inr (s1\<lparr>responseBuffer := last L2\<rparr>)"
      using step True by simp
    moreover have "process_lines (butlast (A @ L2)) (st\<lparr>responseBuffer := last (A @ L2)\<rparr>)
                     = Inr (s1\<lparr>responseBuffer := last L2\<rparr>)"
      using process_lines_buffer_upd [where ls = A and st = "st\<lparr>responseBuffer := last L1\<rparr>" and b = "last L2"] s1 True L2_ne
      by (simp add: butlast_append)
    ultimately show ?thesis by (simp only: total concat.simps)
  next
    case False
    have A_ok: "\<forall>l\<in>set A. \<not> is_terminal l"
      and L2_ok: "\<forall>l\<in>set (butlast (butlast L2)). \<not> is_terminal l"
      using Cons.prems(2) False bb by (auto simp: total)
    have "run (map StdoutData fs) s1
           = process_lines (butlast L2) (s1\<lparr>responseBuffer := last L2\<rparr>)"
      using Cons.IH [OF no_nl] L2_ok by (simp add: s1_buf L2_def)
    then have lhs: "run (map StdoutData (f # fs)) st
           = process_lines (butlast L2) (s1\<lparr>responseBuffer := last L2\<rparr>)"
      using step by simp
    have "process_lines (butlast (A @ L2)) (st\<lparr>responseBuffer := last (A @ L2)\<rparr>)
            = process_lines (A @ butlast L2) (st\<lparr>responseBuffer := last L2\<rparr>)"
      using L2_ne by (simp add: butlast_append)
    also have "\<dots> = (case process_lines A (st\<lparr>responseBuffer := last L2\<rparr>) of
                       Inl e \<Rightarrow> Inl e | Inr s \<Rightarrow> process_lines (butlast L2) s)"
      by (rule process_lines_append [OF A_ok])
    also have "process_lines A (st\<lparr>responseBuffer := last L2\<rparr>) = Inr (s1\<lparr>responseBuffer := last L2\<rparr>)"
      using process_lines_buffer_upd [where ls = A and st = "st\<lparr>responseBuffer := last L1\<rparr>" and b = "last L2"] s1
      by simp
    finally show ?thesis using lhs by (simp only: total concat.simps) simp
  qed
qed


section \<open>Lemmas: the two streaming operations step together\<close>

lemma streamed_append: "streamed (xs @ ys) = streamed xs @ streamed ys"
  by (induction xs rule: streamed.induct) simp_all

lemma agree_after_cleanup: "agree p s \<Longrightarrow> agree (after_cleanup p) (after_cleanup s)"
  by (cases "scriptFile s") (simp_all add: agree_def after_cleanup_def console_error_def)

lemma agree_resolve: "agree p s \<Longrightarrow> agree (resolve v p) (resolve v s)"
  by (simp add: agree_def resolve_def)

lemma agree_reject: "agree p s \<Longrightarrow> agree (reject m p) (reject m s)"
  by (simp add: agree_def reject_def)

lemma agree_mark: "agree p s \<Longrightarrow> agree (mark f p) (mark f s)"
  by (simp add: agree_def mark_def)

lemma agree_buffer: "agree p s \<Longrightarrow> agree (p\<lparr>responseBuffer := b\<rparr>) (s\<lparr>responseBuffer := b\<rparr>)"
  by (simp add: agree_def)

lemma agree_chunk: "agree p s \<Longrightarrow> agree (stream_chunk c p) (onChunk c (mark (Chunk c) s))"
  by (simp add: agree_def stream_chunk_def Let_def mark_def postMessage_def onChunk_def streamed_append)

lemma agree_final: "agree p s \<Longrightarrow> agree (final_message p) (mark End s)"
  by (simp add: agree_def final_message_def Let_def mark_def postMessage_def streamed_append)

lemma view_simps [simp]:
  "view (mark f p) = view p"
  "view (resolve v p) = view p"
  "view (reject m p) = view p"
  "view (after_cleanup p) = view p"
  "view (stream_chunk c p) = view p"
  "view (final_message p) = view p"
  by (cases "scriptFile p";
      simp add: mark_def resolve_def reject_def after_cleanup_def console_error_def
        postMessage_def stream_chunk_def final_message_def Let_def)+

lemma agree_process_lines:
  "agree p s \<Longrightarrow>
     \<exists>p' s'. pv_process_lines ls p = Inr p' \<and> process_lines ls s = Inr s'
             \<and> agree p' s' \<and> view p' = view p"
proof (induction ls arbitrary: p s)
  case Nil
  then show ?case by simp
next
  case (Cons l ls)
  let ?c = "substring l 6"
  have chunk: "\<exists>p' s'. pv_process_lines ls (stream_chunk ?c p) = Inr p'
                 \<and> process_lines ls (onChunk ?c (mark (Chunk ?c) s)) = Inr s'
                 \<and> agree p' s' \<and> view p' = view p"
    using Cons.IH [OF agree_chunk [OF Cons.prems]] by simp
  have fin: "agree (resolve () (after_cleanup (final_message p)))
               (resolve () (after_cleanup (mark End s)))"
    using Cons.prems by (intro agree_resolve agree_after_cleanup agree_final)
  have err: "agree (reject ?c (mark (Error ?c) p)) (reject ?c (mark (Error ?c) s))"
    using Cons.prems by (intro agree_reject agree_mark)
  show ?case
    using chunk fin err Cons.IH [OF Cons.prems] by (simp add: cleanup_eq)
qed

lemma agree_on_event:
  "agree p s \<Longrightarrow>
     \<exists>p' s'. pv_on_event e p = Inr p' \<and> on_event e s = Inr s' \<and> agree p' s' \<and> view p' = view p"
proof (cases e)
  case (StdoutData d)
  assume a: "agree p s"
  have "agree (p\<lparr>responseBuffer := last (split_nl (responseBuffer p @ d))\<rparr>)
          (s\<lparr>responseBuffer := last (split_nl (responseBuffer p @ d))\<rparr>)"
    using a by (rule agree_buffer)
  from agree_process_lines [OF this, of "butlast (split_nl (responseBuffer p @ d))"] a
  show ?thesis
    by (simp add: StdoutData pv_on_stdout_def on_stdout_def Let_def agree_def)
next
  case (StderrData d)
  assume "agree p s"
  then show ?thesis
    by (simp add: StderrData on_stderr_def agree_def console_error_def)
next
  case (Close code)
  assume "agree p s"
  then have "agree (after_cleanup p) (after_cleanup s)" by (rule agree_after_cleanup)
  then show ?thesis
    by (simp add: Close pv_on_close_def on_close_def cleanup_eq agree_resolve agree_reject)
next
  case (ProcError err)
  assume "agree p s"
  then show ?thesis
    by (simp add: ProcError pv_on_error_def on_error_def agree_reject)
qed

lemma agree_run:
  "agree p s \<Longrightarrow>
     \<exists>p' s'. pv_run evs p = Inr p' \<and> run evs s = Inr s' \<and> agree p' s' \<and> view p' = view p"
proof (induction evs arbitrary: p s)
  case Nil
  then show ?case by simp
next
  case (Cons e evs)
  from agree_on_event [OF Cons.prems, of e]
  obtain p1 s1 where 1: "pv_on_event e p = Inr p1" "on_event e s = Inr s1" "agree p1 s1" "view p1 = view p"
    by blast
  from Cons.IH [OF 1(3)] 1 show ?case by simp
qed

lemma agree_init: "agree (sendMessageToAgent_init v) sendMessage_init"
  by (simp add: agree_def sendMessageToAgent_init_def sendMessage_init_def)


lemma pv_of_service:
  assumes "run evs sendMessage_init = Inr s"
  shows "\<exists>p. pv_run evs (sendMessageToAgent_init True) = Inr p \<and> decoded p = decoded s
            \<and> promise p = promise s \<and> streamed (posted p) = onChunk_calls s"
  using agree_run [OF agree_init, of evs True] assms
  by (auto simp: agree_def sendMessageToAgent_init_def)

section \<open>Framing\<close>

text \<open>
  C1. However the stream \<open>CHUNK:Hello\nCHUNK: world\nEND_STREAM\n\<close> is chopped into
  stdout fragments (one byte at a time included), the decoding loop of \<open>sendMessage\<close> and
  of \<open>sendMessageToAgent\<close> acts on exactly the frames \<open>Chunk "Hello"\<close>,
  \<open>Chunk " world"\<close>, \<open>End\<close>, in this order: the two chunks are delivered in order and
  the promise is then resolved.
\<close>

theorem framing_correct:
  assumes "concat fs = ''CHUNK:Hello'' @ [CHR 0x0A] @ ''CHUNK: world'' @ [CHR 0x0A]
                        @ ''END_STREAM'' @ [CHR 0x0A]"
  shows "(\<exists>s. run (map StdoutData fs) sendMessage_init = Inr s
             \<and> decoded s = [Chunk ''Hello'', Chunk '' world'', End]
             \<and> onChunk_calls s = [''Hello'', '' world'']
             \<and> promise s = Resolved ())
       \<and> (\<exists>p. pv_run (map StdoutData fs) (sendMessageToAgent_init True) = Inr p
             \<and> decoded p = [Chunk ''Hello'', Chunk '' world'', End]
             \<and> streamed (posted p) = [''Hello'', '' world'']
             \<and> promise p = Resolved ())"
proof -
  have buf: "responseBuffer sendMessage_init = []"
    by (simp add: sendMessage_init_def)
  have lines: "split_nl (responseBuffer sendMessage_init @ concat fs)
                 = [''CHUNK:Hello'', ''CHUNK: world'', ''END_STREAM'', []]"
    by (simp add: buf assms split_nl_def del: split_nl_Cons split_nl_Nil)
  have "run (map StdoutData fs) sendMessage_init
          = process_lines [''CHUNK:Hello'', ''CHUNK: world'', ''END_STREAM'']
              (sendMessage_init\<lparr>responseBuffer := []\<rparr>)"
    using feed_fragments [of sendMessage_init fs]
    by (simp only: lines) (simp add: buf is_terminal_def startsWith_def)
  also have "\<dots> = Inr (sendMessage_init
                \<lparr>promise := Resolved (), scriptFile := Removed,
                 decoded := [Chunk ''Hello'', Chunk '' world'', End],
                 onChunk_calls := [''Hello'', '' world'']\<rparr>)"
    by (simp add: sendMessage_init_def startsWith_def substring_def onChunk_def mark_def
          cleanup_def unlink_script_def resolve_def)
  finally have svc: "run (map StdoutData fs) sendMessage_init
                = Inr (sendMessage_init
                \<lparr>promise := Resolved (), scriptFile := Removed,
                 decoded := [Chunk ''Hello'', Chunk '' world'', End],
                 onChunk_calls := [''Hello'', '' world'']\<rparr>)" .
  from pv_of_service [OF svc] svc show ?thesis by auto
qed

text \<open>The same stream delivered one byte at a time.\<close>

theorem framing_correct_witness:
  "(\<exists>s. run (map StdoutData (map (\<lambda>c. [c])
            (''CHUNK:Hello'' @ [CHR 0x0A] @ ''CHUNK: world'' @ [CHR 0x0A]
              @ ''END_STREAM'' @ [CHR 0x0A]))) sendMessage_init = Inr s
         \<and> decoded s = [Chunk ''Hello'', Chunk '' world'', End]
         \<and> onChunk_calls s = [''Hello'', '' world'']
         \<and> promise s = Resolved ())
   \<and> (\<exists>p. pv_run (map StdoutData (map (\<lambda>c. [c])
            (''CHUNK:Hello'' @ [CHR 0x0A] @ ''CHUNK: world'' @ [CHR 0x0A]
              @ ''END_STREAM'' @ [CHR 0x0A]))) (sendMessageToAgent_init True) = Inr p
         \<and> decoded p = [Chunk ''Hello'', Chunk '' world'', End]
         \<and> streamed (posted p) = [''Hello'', '' world'']
         \<and> promise p = Resolved ())"
  using framing_correct [of "map (\<lambda>c. [c])
            (''CHUNK:Hello'' @ [CHR 0x0A] @ ''CHUNK: world'' @ [CHR 0x0A]
              @ ''END_STREAM'' @ [CHR 0x0A])"]
  by simp

section \<open>The unterminated last line\<close>

lemma close_result:
  "on_close code st =
     Inr (if code \<noteq> Some 0
          then reject (''Python process exited with code '' @ string_of_code code) (after_cleanup st)
          else resolve () (after_cleanup st))"
  by (simp add: on_close_def cleanup_eq)

text \<open>
  C2, as stated, fails: the close listener does not look at \<open>responseBuffer\<close>. After the
  single fragment \<open>CHUNK:partial\<close> and a close with exit code 0 the promise is resolved,
  \<open>onChunk\<close> was never called, and the text is still in the buffer.
\<close>

theorem unterminated_line_counterexample:
  "run [StdoutData ''CHUNK:partial'', Close (Some 0)] sendMessage_init
     = Inr (sendMessage_init
              \<lparr>promise := Resolved (), scriptFile := Removed, responseBuffer := ''CHUNK:partial''\<rparr>)
   \<and> onChunk_calls (sendMessage_init
              \<lparr>promise := Resolved (), scriptFile := Removed, responseBuffer := ''CHUNK:partial''\<rparr>) = []"
  by (simp add: sendMessage_init_def on_stdout_def on_close_def split_nl_def cleanup_def
        unlink_script_def resolve_def del: split_nl_Cons split_nl_Nil)

text \<open>
  C2, amended. When the stream \<open>CHUNK:partial\<close> (however it is chopped) ends with no
  newline and the process closes, the held text is not decoded: no frame is acted on, no
  chunk is delivered by either streaming operation, and the request settles by the exit
  code alone (resolved on 0, rejected with the exit-code message otherwise).
\<close>

theorem unterminated_line_held:
  assumes "concat fs = ''CHUNK:partial''"
  shows "(\<exists>s. run (map StdoutData fs @ [Close code]) sendMessage_init = Inr s
             \<and> decoded s = [] \<and> onChunk_calls s = []
             \<and> responseBuffer s = ''CHUNK:partial''
             \<and> promise s = (if code = Some 0 then Resolved ()
                             else Rejected (''Python process exited with code '' @ string_of_code code)))
       \<and> (\<exists>p. pv_run (map StdoutData fs @ [Close code]) (sendMessageToAgent_init True) = Inr p
             \<and> decoded p = [] \<and> streamed (posted p) = []
             \<and> promise p = (if code = Some 0 then Resolved ()
                             else Rejected (''Python process exited with code '' @ string_of_code code)))"
proof -
  have buf: "responseBuffer sendMessage_init = []"
    by (simp add: sendMessage_init_def)
  have lines: "split_nl (responseBuffer sendMessage_init @ concat fs) = [''CHUNK:partial'']"
    by (simp add: buf assms split_nl_def del: split_nl_Cons split_nl_Nil)
  have fed: "run (map StdoutData fs) sendMessage_init
          = Inr (sendMessage_init\<lparr>responseBuffer := ''CHUNK:partial''\<rparr>)"
    using feed_fragments [of sendMessage_init fs]
    by (simp only: lines) (simp add: buf)
  have svc: "run (map StdoutData fs @ [Close code]) sendMessage_init
          = Inr (if code \<noteq> Some 0
                 then reject (''Python process exited with code '' @ string_of_code code)
                        (after_cleanup (sendMessage_init\<lparr>responseBuffer := ''CHUNK:partial''\<rparr>))
                 else resolve () (after_cleanup (sendMessage_init\<lparr>responseBuffer := ''CHUNK:partial''\<rparr>)))"
    by (simp add: run_append fed close_result)
  from pv_of_service [OF svc] svc show ?thesis
    by (auto simp: resolve_def reject_def sendMessage_init_def)
qed

theorem unterminated_line_held_witness:
  "(\<exists>s. run (map StdoutData [''CHUNK:'', ''partial''] @ [Close (Some 0)]) sendMessage_init = Inr s
             \<and> decoded s = [] \<and> onChunk_calls s = []
             \<and> responseBuffer s = ''CHUNK:partial''
             \<and> promise s = Resolved ())"
  using unterminated_line_held [of "[''CHUNK:'', ''partial'']" "Some 0"]
  by simp

section \<open>After an error frame\<close>

lemma promise_simps [simp]:
  "promise (mark f st) = promise st"
  "promise (onChunk c s) = promise s"
  by (simp_all add: mark_def onChunk_def)

lemma settled_resolve [simp]: "promise st \<noteq> Pending \<Longrightarrow> resolve v st = st"
  by (simp add: resolve_def)

lemma settled_reject [simp]: "promise st \<noteq> Pending \<Longrightarrow> reject m st = st"
  by (simp add: reject_def)

lemma settled_process_lines:
  "promise st \<noteq> Pending \<Longrightarrow> \<exists>s. process_lines ls st = Inr s \<and> promise s = promise st"
proof (induction ls arbitrary: st)
  case Nil
  show ?case by simp
next
  case (Cons l ls)
  have chunk: "\<exists>s. process_lines ls (onChunk (substring l 6) (mark (Chunk (substring l 6)) st)) = Inr s
                 \<and> promise s = promise st"
    using Cons.IH [of "onChunk (substring l 6) (mark (Chunk (substring l 6)) st)"] Cons.prems
    by simp
  show ?case using chunk Cons.IH [OF Cons.prems] Cons.prems by (simp add: cleanup_eq)
qed

lemma settled_on_event:
  "promise st \<noteq> Pending \<Longrightarrow> \<exists>s. on_event e st = Inr s \<and> promise s = promise st"
proof (cases e)
  case (StdoutData d)
  assume "promise st \<noteq> Pending"
  then show ?thesis
    using settled_process_lines [of "st\<lparr>responseBuffer := last (split_nl (responseBuffer st @ d))\<rparr>"
            "butlast (split_nl (responseBuffer st @ d))"]
    by (simp add: StdoutData on_stdout_def Let_def)
next
  case (StderrData d)
  show ?thesis by (simp add: StderrData on_stderr_def console_error_def)
next
  case (Close code)
  assume "promise st \<noteq> Pending"
  then show ?thesis by (simp add: Close close_result)
next
  case (ProcError err)
  assume "promise st \<noteq> Pending"
  then show ?thesis by (simp add: ProcError on_error_def)
qed

lemma settled_run:
  "promise st \<noteq> Pending \<Longrightarrow> \<exists>s. run evs st = Inr s \<and> promise s = promise st"
proof (induction evs arbitrary: st)
  case Nil
  show ?case by simp
next
  case (Cons e evs)
  from settled_on_event [OF Cons.prems, of e]
  obtain s1 where 1: "on_event e st = Inr s1" "promise s1 = promise st" by blast
  with Cons.IH [of s1] Cons.prems show ?case by simp
qed

lemma pv_settled_run:
  assumes "agree p s" and "promise s \<noteq> Pending"
  shows "\<exists>p'. pv_run evs p = Inr p' \<and> promise p' = promise s"
proof -
  from agree_run [OF assms(1), of evs]
  obtain p' s' where 1: "pv_run evs p = Inr p'" "run evs s = Inr s'" "agree p' s'" by blast
  from settled_run [OF assms(2), of evs] 1(2) have "promise s' = promise s" by simp
  with 1 show ?thesis by (simp add: agree_def)
qed

text \<open>
  C3, as stated, fails: the \<open>return\<close> after \<open>reject\<close> leaves the listener for this stdout
  event only. A \<open>CHUNK:\<close> line arriving in a later stdout event is still decoded and given
  to \<open>onChunk\<close>.
\<close>

theorem error_precedence_counterexample:
  "run [StdoutData (''CHUNK:x'' @ [CHR 0x0A] @ ''ERROR:boom'' @ [CHR 0x0A]),
        StdoutData (''CHUNK:y'' @ [CHR 0x0A])] sendMessage_init
     = Inr (sendMessage_init
              \<lparr>promise := Rejected ''boom'',
               decoded := [Chunk ''x'', Error ''boom'', Chunk ''y''],
               onChunk_calls := [''x'', ''y'']\<rparr>)"
  by (simp add: sendMessage_init_def on_stdout_def split_nl_def startsWith_def substring_def
        onChunk_def mark_def reject_def del: split_nl_Cons split_nl_Nil)

text \<open>
  C3, amended. When \<open>CHUNK:x\nERROR:boom\n\<close> is delivered (however it is chopped), the
  chunk \<open>x\<close> is delivered and the promise is then rejected with exactly \<open>boom\<close>, in both
  streaming operations; no later event changes this outcome; and whatever follows the
  error line within the same stdout event is not processed.
\<close>

theorem error_precedence:
  assumes "concat fs = ''CHUNK:x'' @ [CHR 0x0A] @ ''ERROR:boom'' @ [CHR 0x0A]"
  shows "(\<exists>s. run (map StdoutData fs) sendMessage_init = Inr s
             \<and> decoded s = [Chunk ''x'', Error ''boom'']
             \<and> onChunk_calls s = [''x'']
             \<and> promise s = Rejected ''boom''
             \<and> (\<exists>s'. run evs s = Inr s' \<and> promise s' = Rejected ''boom''))
       \<and> (\<exists>p. pv_run (map StdoutData fs) (sendMessageToAgent_init True) = Inr p
             \<and> decoded p = [Chunk ''x'', Error ''boom'']
             \<and> streamed (posted p) = [''x'']
             \<and> promise p = Rejected ''boom''
             \<and> (\<exists>p'. pv_run evs p = Inr p' \<and> promise p' = Rejected ''boom''))
       \<and> (\<exists>s. on_stdout (''CHUNK:x'' @ [CHR 0x0A] @ ''ERROR:boom'' @ [CHR 0x0A] @ extra)
                  sendMessage_init = Inr s
             \<and> decoded s = [Chunk ''x'', Error ''boom'']
             \<and> onChunk_calls s = [''x'']
             \<and> promise s = Rejected ''boom'')
       \<and> (\<exists>p. pv_on_stdout (''CHUNK:x'' @ [CHR 0x0A] @ ''ERROR:boom'' @ [CHR 0x0A] @ extra)
                  (sendMessageToAgent_init True) = Inr p
             \<and> decoded p = [Chunk ''x'', Error ''boom'']
             \<and> streamed (posted p) = [''x'']
             \<and> promise p = Rejected ''boom'')"
proof -
  let ?r = "sendMessage_init\<lparr>promise := Rejected ''boom'',
              decoded := [Chunk ''x'', Error ''boom''], onChunk_calls := [''x'']\<rparr>"
  have buf: "responseBuffer sendMessage_init = []"
    by (simp add: sendMessage_init_def)
  have lines: "split_nl (responseBuffer sendMessage_init @ concat fs)
                 = [''CHUNK:x'', ''ERROR:boom'', []]"
    by (simp add: buf assms split_nl_def del: split_nl_Cons split_nl_Nil)
  have "run (map StdoutData fs) sendMessage_init
          = process_lines [''CHUNK:x'', ''ERROR:boom''] (sendMessage_init\<lparr>responseBuffer := []\<rparr>)"
    using feed_fragments [of sendMessage_init fs]
    by (simp only: lines) (simp add: buf is_terminal_def startsWith_def)
  also have "\<dots> = Inr ?r"
    by (simp add: sendMessage_init_def startsWith_def substring_def onChunk_def mark_def
          reject_def)
  finally have svc: "run (map StdoutData fs) sendMessage_init = Inr ?r" .
  have rej: "promise ?r = Rejected ''boom''" by simp
  then have later: "\<exists>s'. run evs ?r = Inr s' \<and> promise s' = Rejected ''boom''"
    using settled_run [of ?r evs] by simp
  from agree_run [OF agree_init, of "map StdoutData fs" True] svc
  obtain p where p: "pv_run (map StdoutData fs) (sendMessageToAgent_init True) = Inr p"
    "agree p ?r" "view p"
    by (auto simp: sendMessageToAgent_init_def)
  have pv_later: "\<exists>p'. pv_run evs p = Inr p' \<and> promise p' = Rejected ''boom''"
    using pv_settled_run [OF p(2), of evs] by simp
  have part1: "\<exists>s. run (map StdoutData fs) sendMessage_init = Inr s
             \<and> decoded s = [Chunk ''x'', Error ''boom'']
             \<and> onChunk_calls s = [''x'']
             \<and> promise s = Rejected ''boom''
             \<and> (\<exists>s'. run evs s = Inr s' \<and> promise s' = Rejected ''boom'')"
    using svc later by simp
  have part2: "\<exists>p. pv_run (map StdoutData fs) (sendMessageToAgent_init True) = Inr p
             \<and> decoded p = [Chunk ''x'', Error ''boom'']
             \<and> streamed (posted p) = [''x'']
             \<and> promise p = Rejected ''boom''
             \<and> (\<exists>p'. pv_run evs p = Inr p' \<and> promise p' = Rejected ''boom'')"
    using p pv_later by (auto simp: agree_def)
  let ?d = "''CHUNK:x'' @ [CHR 0x0A] @ ''ERROR:boom'' @ [CHR 0x0A] @ extra"
  have sp: "split_nl ?d = ''CHUNK:x'' # ''ERROR:boom'' # split_nl extra"
    using split_nl_append [of "''CHUNK:x'' @ [CHR 0x0A] @ ''ERROR:boom'' @ [CHR 0x0A]" extra]
    by (simp add: split_nl_def del: split_nl_Cons split_nl_Nil)
  have one: "on_stdout ?d sendMessage_init
               = Inr (?r\<lparr>responseBuffer := last (split_nl extra)\<rparr>)"
    unfolding on_stdout_def Let_def buf append_Nil sp
    by (simp add: sendMessage_init_def startsWith_def substring_def onChunk_def mark_def
          reject_def)
  have part3: "\<exists>s. on_stdout ?d sendMessage_init = Inr s
             \<and> decoded s = [Chunk ''x'', Error ''boom'']
             \<and> onChunk_calls s = [''x'']
             \<and> promise s = Rejected ''boom''"
    using one by simp
  from agree_on_event [OF agree_init, of "StdoutData ?d" True] one
  have part4: "\<exists>p. pv_on_stdout ?d (sendMessageToAgent_init True) = Inr p
             \<and> decoded p = [Chunk ''x'', Error ''boom'']
             \<and> streamed (posted p) = [''x'']
             \<and> promise p = Rejected ''boom''"
    by (auto simp: agree_def sendMessageToAgent_init_def)
  from part1 part2 part3 part4 show ?thesis by blast
qed


text \<open>The error line split across two fragments, then a chunk line and a clean exit.\<close>

theorem error_precedence_witness:
  "(\<exists>s. run (map StdoutData [''CHUNK:x'' @ [CHR 0x0A] @ ''ERR'', ''OR:boom'' @ [CHR 0x0A]])
             sendMessage_init = Inr s
        \<and> decoded s = [Chunk ''x'', Error ''boom'']
        \<and> onChunk_calls s = [''x'']
        \<and> promise s = Rejected ''boom''
        \<and> (\<exists>s'. run [StdoutData (''CHUNK:y'' @ [CHR 0x0A]), Close (Some 0)] s = Inr s'
               \<and> promise s' = Rejected ''boom''))
   \<and> (\<exists>s. on_stdout (''CHUNK:x'' @ [CHR 0x0A] @ ''ERROR:boom'' @ [CHR 0x0A]
                         @ ''CHUNK:y'' @ [CHR 0x0A]) sendMessage_init = Inr s
        \<and> decoded s = [Chunk ''x'', Error ''boom'']
        \<and> onChunk_calls s = [''x'']
        \<and> promise s = Rejected ''boom'')"
  using error_precedence
          [where fs = "[''CHUNK:x'' @ [CHR 0x0A] @ ''ERR'', ''OR:boom'' @ [CHR 0x0A]]"
             and evs = "[StdoutData (''CHUNK:y'' @ [CHR 0x0A]), Close (Some 0)]"
             and extra = "''CHUNK:y'' @ [CHR 0x0A]"]
  by simp

section \<open>The first terminal frame wins\<close>

lemma first_terminal_snoc:
  "first_terminal (fs @ [f]) = (case first_terminal fs of None \<Rightarrow> first_terminal [f] | Some t \<Rightarrow> Some t)"
  by (induction fs rule: first_terminal.induct) simp_all

lemma first_terminal_not_chunk: "first_terminal fs \<noteq> Some (Chunk c)"
  by (induction fs rule: first_terminal.induct) simp_all

lemma pending_iff:
  "settled_by (first_terminal fs) = Pending \<longleftrightarrow> first_terminal fs = None"
proof (cases "first_terminal fs")
  case None
  then show ?thesis by simp
next
  case (Some t)
  then show ?thesis using first_terminal_not_chunk [of fs] by (cases t) auto
qed

lemma decoded_simps [simp]:
  "decoded (mark f st) = decoded st @ [f]"
  "decoded (onChunk c s) = decoded s"
  "decoded (resolve v st) = decoded st"
  "decoded (reject m st) = decoded st"
  by (simp_all add: mark_def onChunk_def resolve_def reject_def)

lemma promise_resolve: "promise (resolve v st) = (if promise st = Pending then Resolved v else promise st)"
  by (simp add: resolve_def)

lemma promise_reject: "promise (reject m st) = (if promise st = Pending then Rejected m else promise st)"
  by (simp add: reject_def)

lemma verdict_process_lines:
  "promise st = settled_by (first_terminal (decoded st)) \<Longrightarrow>
     \<exists>s. process_lines ls st = Inr s \<and> promise s = settled_by (first_terminal (decoded s))"
proof (induction ls arbitrary: st)
  case Nil
  then show ?case by simp
next
  case (Cons l ls)
  let ?c = "substring l 6"
  have "promise (onChunk ?c (mark (Chunk ?c) st))
          = settled_by (first_terminal (decoded (onChunk ?c (mark (Chunk ?c) st))))"
    using Cons.prems by (simp add: first_terminal_snoc split: option.splits)
  from Cons.IH [OF this]
  have chunk: "\<exists>s. process_lines ls (onChunk ?c (mark (Chunk ?c) st)) = Inr s
                 \<and> promise s = settled_by (first_terminal (decoded s))" .
  have fin: "promise (resolve () (after_cleanup (mark End st)))
               = settled_by (first_terminal (decoded (resolve () (after_cleanup (mark End st)))))"
    using Cons.prems pending_iff [of "decoded st"]
    by (auto simp: promise_resolve first_terminal_snoc split: option.splits)
  have err: "promise (reject ?c (mark (Error ?c) st))
               = settled_by (first_terminal (decoded (reject ?c (mark (Error ?c) st))))"
    using Cons.prems pending_iff [of "decoded st"]
    by (auto simp: promise_reject first_terminal_snoc split: option.splits)
  show ?case
    using chunk fin err Cons.IH [OF Cons.prems] by (simp add: cleanup_eq)
qed

lemma verdict_run:
  "promise st = settled_by (first_terminal (decoded st)) \<Longrightarrow>
     \<exists>s. run (map StdoutData fs) st = Inr s \<and> promise s = settled_by (first_terminal (decoded s))"
proof (induction fs arbitrary: st)
  case Nil
  then show ?case by simp
next
  case (Cons f fs)
  let ?st = "st\<lparr>responseBuffer := last (split_nl (responseBuffer st @ f))\<rparr>"
  have "promise ?st = settled_by (first_terminal (decoded ?st))"
    using Cons.prems by simp
  from verdict_process_lines [OF this, of "butlast (split_nl (responseBuffer st @ f))"]
  obtain s1 where 1: "on_stdout f st = Inr s1" "promise s1 = settled_by (first_terminal (decoded s1))"
    by (auto simp: on_stdout_def Let_def)
  from Cons.IH [OF 1(2)] 1(1) show ?case by simp
qed

lemma close_decoded: "on_close code st = Inr s \<Longrightarrow> decoded s = decoded st"
  by (auto simp: close_result split: if_splits)

lemma close_promise:
  "on_close code st = Inr s \<Longrightarrow>
     promise s = (if promise st = Pending
                  then (if code = Some 0 then Resolved ()
                        else Rejected (''Python process exited with code '' @ string_of_code code))
                  else promise st)"
  by (auto simp: close_result promise_resolve promise_reject split: if_splits)

text \<open>
  C4. Once the loop has acted on an \<open>END_STREAM\<close> line as its first terminal frame, the
  promise is resolved, and a close event with any exit code leaves it resolved. The exit
  code decides the outcome only when no terminal frame was decoded; after an error frame
  the promise stays rejected with that frame's message. This holds for \<open>sendMessage\<close> and
  for \<open>sendMessageToAgent\<close>.
\<close>

theorem first_terminal_wins:
  "(\<exists>s1 s2. run (map StdoutData fs) sendMessage_init = Inr s1 \<and> on_close code s1 = Inr s2
       \<and> (first_terminal (decoded s1) = Some End
            \<longrightarrow> promise s1 = Resolved () \<and> promise s2 = Resolved ())
       \<and> (\<forall>m. first_terminal (decoded s1) = Some (Error m)
            \<longrightarrow> promise s1 = Rejected m \<and> promise s2 = Rejected m)
       \<and> (first_terminal (decoded s1) = None
            \<longrightarrow> promise s1 = Pending
              \<and> promise s2 = (if code = Some 0 then Resolved ()
                   else Rejected (''Python process exited with code '' @ string_of_code code))))
   \<and> (\<exists>p1 p2. pv_run (map StdoutData fs) (sendMessageToAgent_init True) = Inr p1
       \<and> pv_on_close code p1 = Inr p2
       \<and> (first_terminal (decoded p1) = Some End
            \<longrightarrow> promise p1 = Resolved () \<and> promise p2 = Resolved ())
       \<and> (\<forall>m. first_terminal (decoded p1) = Some (Error m)
            \<longrightarrow> promise p1 = Rejected m \<and> promise p2 = Rejected m)
       \<and> (first_terminal (decoded p1) = None
            \<longrightarrow> promise p1 = Pending
              \<and> promise p2 = (if code = Some 0 then Resolved ()
                   else Rejected (''Python process exited with code '' @ string_of_code code))))"
proof -
  have "promise sendMessage_init = settled_by (first_terminal (decoded sendMessage_init))"
    by (simp add: sendMessage_init_def)
  from verdict_run [OF this, of fs]
  obtain s1 where s1: "run (map StdoutData fs) sendMessage_init = Inr s1"
    "promise s1 = settled_by (first_terminal (decoded s1))" by blast
  from agree_run [OF agree_init, of "map StdoutData fs" True] s1(1)
  obtain p1 where p1: "pv_run (map StdoutData fs) (sendMessageToAgent_init True) = Inr p1"
    "agree p1 s1" by auto
  from agree_on_event [OF p1(2), of "Close code"]
  obtain p2 s2 where 2: "pv_on_close code p1 = Inr p2" "on_close code s1 = Inr s2" "agree p2 s2"
    by auto
  note c = close_promise [OF 2(2)]
  have svc: "(first_terminal (decoded s1) = Some End
            \<longrightarrow> promise s1 = Resolved () \<and> promise s2 = Resolved ())
       \<and> (\<forall>m. first_terminal (decoded s1) = Some (Error m)
            \<longrightarrow> promise s1 = Rejected m \<and> promise s2 = Rejected m)
       \<and> (first_terminal (decoded s1) = None
            \<longrightarrow> promise s1 = Pending
              \<and> promise s2 = (if code = Some 0 then Resolved ()
                   else Rejected (''Python process exited with code '' @ string_of_code code)))"
    using s1(2) c by auto
  have eqs: "decoded p1 = decoded s1" "promise p1 = promise s1" "promise p2 = promise s2"
    using p1(2) 2(3) by (simp_all add: agree_def)
  show ?thesis
    using s1(1) 2(2) p1(1) 2(1) svc unfolding eqs [symmetric] 
    by (intro conjI exI [of _ s1] exI [of _ s2] exI [of _ p1] exI [of _ p2]) (simp_all add: eqs)
qed

text \<open>An end marker, then exit code 1: resolved all the same.\<close>

theorem first_terminal_wins_witness:
  "\<exists>s1 s2. run (map StdoutData [''CHUNK:a'' @ [CHR 0x0A] @ ''END_STREAM'' @ [CHR 0x0A]])
               sendMessage_init = Inr s1
     \<and> on_close (Some 1) s1 = Inr s2
     \<and> first_terminal (decoded s1) = Some End
     \<and> promise s2 = Resolved ()"
proof -
  have run1: "run (map StdoutData [''CHUNK:a'' @ [CHR 0x0A] @ ''END_STREAM'' @ [CHR 0x0A]])
                sendMessage_init
              = Inr (sendMessage_init\<lparr>promise := Resolved (), scriptFile := Removed,
                       decoded := [Chunk ''a'', End], onChunk_calls := [''a'']\<rparr>)"
    by (simp add: sendMessage_init_def on_stdout_def split_nl_def startsWith_def substring_def
          onChunk_def mark_def cleanup_def unlink_script_def resolve_def
          del: split_nl_Cons split_nl_Nil)
  from first_terminal_wins [of "[''CHUNK:a'' @ [CHR 0x0A] @ ''END_STREAM'' @ [CHR 0x0A]]" "Some 1"]
  show ?thesis unfolding run1 by auto
qed

section \<open>The generated script against the decoding loop\<close>

text \<open>
  C5. The round trip fails on the code. For the chunks \<open>Hello\<close> and \<open> world\<close> the chat
  script prints \<open>CHUNK:HelloCHUNK: world\<close>, a newline, \<open>END_STREAM\<close> and a newline: the
  chunks are not on lines of their own, and the decoding loop delivers the single chunk
  \<open>HelloCHUNK: world\<close> before it resolves.
\<close>

theorem script_round_trip_fails:
  "script_stdout [''Hello'', '' world''] Exhausted
     = ''CHUNK:HelloCHUNK: world'' @ [CHR 0x0A] @ ''END_STREAM'' @ [CHR 0x0A]
   \<and> run [StdoutData (script_stdout [''Hello'', '' world''] Exhausted)] sendMessage_init
     = Inr (sendMessage_init
              \<lparr>promise := Resolved (), scriptFile := Removed,
               decoded := [Chunk ''HelloCHUNK: world'', End],
               onChunk_calls := [''HelloCHUNK: world'']\<rparr>)
   \<and> pv_run [StdoutData (script_stdout [''Hello'', '' world''] Exhausted)]
        (sendMessageToAgent_init True)
     = Inr ((sendMessageToAgent_init True)
              \<lparr>promise := Resolved (), scriptFile := Removed,
               decoded := [Chunk ''HelloCHUNK: world'', End],
               fullResponse := ''HelloCHUNK: world'',
               posted := [StreamChunk ''HelloCHUNK: world'',
                          AddAssistantMessage ''HelloCHUNK: world'']\<rparr>)"
  by (simp add: script_stdout_def sendMessage_init_def sendMessageToAgent_init_def
        on_stdout_def pv_on_stdout_def split_nl_def startsWith_def substring_def
        onChunk_def mark_def stream_chunk_def final_message_def postMessage_def Let_def
        cleanup_def unlink_script_def resolve_def
        del: split_nl_Cons split_nl_Nil)

section \<open>Error lines reported by the agent\<close>

lemma nonterminal_lines:
  "\<forall>l\<in>set ls. \<not> is_terminal l \<Longrightarrow>
     \<exists>s. process_lines ls st = Inr s \<and> promise s = promise st
         \<and> responseBuffer s = responseBuffer st"
proof (induction ls arbitrary: st)
  case Nil
  show ?case by simp
next
  case (Cons l ls)
  let ?st = "onChunk (substring l 6) (mark (Chunk (substring l 6)) st)"
  have rest: "\<forall>l\<in>set ls. \<not> is_terminal l" using Cons.prems by simp
  have chunk: "\<exists>s. process_lines ls ?st = Inr s \<and> promise s = promise st
                 \<and> responseBuffer s = responseBuffer st"
    using Cons.IH [OF rest, of ?st] by simp
  show ?case
    using chunk Cons.IH [OF rest, of st] Cons.prems by (simp add: is_terminal_def)
qed

lemma error_line_rejects:
  assumes "promise st = Pending" and "\<forall>l\<in>set pre. \<not> is_terminal l"
  shows "\<exists>s. process_lines (pre @ (''ERROR:'' @ msg) # rest) st = Inr s
             \<and> promise s = Rejected msg \<and> responseBuffer s = responseBuffer st"
proof -
  from nonterminal_lines [OF assms(2), of st]
  obtain s0 where s0: "process_lines pre st = Inr s0" "promise s0 = promise st"
    "responseBuffer s0 = responseBuffer st" by blast
  have "process_lines ((''ERROR:'' @ msg) # rest) s0
          = Inr (reject msg (mark (Error msg) s0))"
    by (simp add: startsWith_def substring_def)
  then show ?thesis
    using s0 assms(1) by (simp add: process_lines_append [OF assms(2)] promise_reject)
qed

lemma stdout_step:
  assumes "promise st = Pending"
    and "butlast (split_nl (responseBuffer st @ f @ concat fs)) = pre @ (''ERROR:'' @ msg) # rest"
    and "\<forall>l\<in>set pre. \<not> is_terminal l"
  shows "\<exists>s1. on_stdout f st = Inr s1 \<and> CHR 0x0A \<notin> set (responseBuffer s1)
           \<and> (promise s1 = Rejected msg
              \<or> promise s1 = Pending
                \<and> (\<exists>pre'. butlast (split_nl (responseBuffer s1 @ concat fs))
                             = pre' @ (''ERROR:'' @ msg) # rest
                          \<and> (\<forall>l\<in>set pre'. \<not> is_terminal l)))"
proof -
  define L1 where "L1 = split_nl (responseBuffer st @ f)"
  define A where "A = butlast L1"
  define L2 where "L2 = split_nl (last L1 @ concat fs)"
  define st0 where "st0 = st\<lparr>responseBuffer := last L1\<rparr>"
  have total: "split_nl (responseBuffer st @ f @ concat fs) = A @ L2"
    using split_nl_append [of "responseBuffer st @ f" "concat fs"]
    by (simp add: L1_def A_def L2_def)
  have L2_ne: "L2 \<noteq> []" by (simp add: L2_def)
  have eq: "A @ butlast L2 = pre @ (''ERROR:'' @ msg) # rest"
    using assms(2) L2_ne by (simp add: total butlast_append)
  have step: "on_stdout f st = process_lines A st0"
    by (simp add: on_stdout_def Let_def L1_def A_def st0_def)
  have st0: "promise st0 = Pending" "responseBuffer st0 = last L1"
    using assms(1) by (simp_all add: st0_def)
  have nl: "CHR 0x0A \<notin> set (last L1)"
    by (simp add: L1_def last_split_nl_no_newline)
  from eq obtain us where
    "A = pre @ us \<and> us @ butlast L2 = (''ERROR:'' @ msg) # rest
     \<or> A @ us = pre \<and> butlast L2 = us @ (''ERROR:'' @ msg) # rest"
    by (auto simp: append_eq_append_conv2)
  then consider
      (here) us' where "A = pre @ (''ERROR:'' @ msg) # us'"
    | (later) us where "A @ us = pre" "butlast L2 = us @ (''ERROR:'' @ msg) # rest"
    by (cases us) auto
  then show ?thesis
  proof cases
    case here
    from error_line_rejects [OF st0(1) assms(3), of msg us']
    obtain s1 where "process_lines A st0 = Inr s1" "promise s1 = Rejected msg"
      "responseBuffer s1 = responseBuffer st0"
      unfolding here by blast
    then show ?thesis using step st0 nl by simp
  next
    case later
    have A_ok: "\<forall>l\<in>set A. \<not> is_terminal l" and us_ok: "\<forall>l\<in>set us. \<not> is_terminal l"
      using assms(3) later(1) by auto
    from nonterminal_lines [OF A_ok, of st0]
    obtain s1 where s1: "process_lines A st0 = Inr s1" "promise s1 = Pending"
      "responseBuffer s1 = last L1"
      using st0 by auto
    have "butlast (split_nl (responseBuffer s1 @ concat fs)) = us @ (''ERROR:'' @ msg) # rest"
      using later(2) by (simp add: s1(3) L2_def)
    then show ?thesis using step s1 nl us_ok by auto
  qed
qed

lemma error_line_run:
  assumes "promise st = Pending" and "fs \<noteq> []"
    and "butlast (split_nl (responseBuffer st @ concat fs)) = pre @ (''ERROR:'' @ msg) # rest"
    and "\<forall>l\<in>set pre. \<not> is_terminal l"
  shows "\<exists>s. run (map StdoutData fs) st = Inr s \<and> promise s = Rejected msg"
  using assms
proof (induction fs arbitrary: st pre)
  case Nil
  then show ?case by simp
next
  case (Cons f fs)
  from stdout_step [OF Cons.prems(1) _ Cons.prems(4), of f fs msg rest] Cons.prems(3)
  obtain s1 where s1: "on_stdout f st = Inr s1" "CHR 0x0A \<notin> set (responseBuffer s1)"
    and alt: "promise s1 = Rejected msg
              \<or> promise s1 = Pending
                \<and> (\<exists>pre'. butlast (split_nl (responseBuffer s1 @ concat fs))
                             = pre' @ (''ERROR:'' @ msg) # rest
                          \<and> (\<forall>l\<in>set pre'. \<not> is_terminal l))"
    by auto
  from alt show ?case
  proof
    assume r: "promise s1 = Rejected msg"
    then have "promise s1 \<noteq> Pending" by simp
    from settled_run [OF this, of "map StdoutData fs"] r s1(1) show ?thesis by simp
  next
    assume "promise s1 = Pending
                \<and> (\<exists>pre'. butlast (split_nl (responseBuffer s1 @ concat fs))
                             = pre' @ (''ERROR:'' @ msg) # rest
                          \<and> (\<forall>l\<in>set pre'. \<not> is_terminal l))"
    then obtain pre' where p: "promise s1 = Pending"
      "butlast (split_nl (responseBuffer s1 @ concat fs)) = pre' @ (''ERROR:'' @ msg) # rest"
      "\<forall>l\<in>set pre'. \<not> is_terminal l" by blast
    have "fs \<noteq> []"
    proof
      assume "fs = []"
      with p(2) s1(2) show False by (simp add: split_nl_no_newline)
    qed
    from Cons.IH [OF p(1) this p(2) p(3)] s1(1) show ?thesis by simp
  qed
qed


lemma pv_step_simps [simp]:
  "promise (stream_chunk c p) = promise p"
  "promise (final_message p) = promise p"
  "responseBuffer (stream_chunk c p) = responseBuffer p"
  "responseBuffer (final_message p) = responseBuffer p"
  by (simp_all add: stream_chunk_def final_message_def postMessage_def mark_def Let_def)

lemma pv_process_lines_append:
  "\<forall>l\<in>set A. \<not> is_terminal l \<Longrightarrow>
     pv_process_lines (A @ B) st
       = (case pv_process_lines A st of Inl e \<Rightarrow> Inl e | Inr s \<Rightarrow> pv_process_lines B s)"
  by (induction A arbitrary: st) (simp_all add: is_terminal_def)

lemma pv_nonterminal_lines:
  "\<forall>l\<in>set ls. \<not> is_terminal l \<Longrightarrow>
     \<exists>s. pv_process_lines ls st = Inr s \<and> promise s = promise st
         \<and> responseBuffer s = responseBuffer st"
proof (induction ls arbitrary: st)
  case Nil
  show ?case by simp
next
  case (Cons l ls)
  let ?st = "stream_chunk (substring l 6) st"
  have rest: "\<forall>l\<in>set ls. \<not> is_terminal l" using Cons.prems by simp
  have chunk: "\<exists>s. pv_process_lines ls ?st = Inr s \<and> promise s = promise st
                 \<and> responseBuffer s = responseBuffer st"
    using Cons.IH [OF rest, of ?st] by simp
  show ?case
    using chunk Cons.IH [OF rest, of st] Cons.prems by (simp add: is_terminal_def)
qed

lemma pv_error_line_rejects:
  assumes "promise st = Pending" and "\<forall>l\<in>set pre. \<not> is_terminal l"
  shows "\<exists>s. pv_process_lines (pre @ (''ERROR:'' @ msg) # rest) st = Inr s
             \<and> promise s = Rejected msg \<and> responseBuffer s = responseBuffer st"
proof -
  from pv_nonterminal_lines [OF assms(2), of st]
  obtain s0 where s0: "pv_process_lines pre st = Inr s0" "promise s0 = promise st"
    "responseBuffer s0 = responseBuffer st" by blast
  have "pv_process_lines ((''ERROR:'' @ msg) # rest) s0
          = Inr (reject msg (mark (Error msg) s0))"
    by (simp add: startsWith_def substring_def)
  then show ?thesis
    using s0 assms(1) by (simp add: pv_process_lines_append [OF assms(2)] promise_reject)
qed

lemma pv_stdout_step:
  assumes "promise st = Pending"
    and "butlast (split_nl (responseBuffer st @ f @ concat fs)) = pre @ (''ERROR:'' @ msg) # rest"
    and "\<forall>l\<in>set pre. \<not> is_terminal l"
  shows "\<exists>s1. pv_on_stdout f st = Inr s1 \<and> CHR 0x0A \<notin> set (responseBuffer s1)
           \<and> (promise s1 = Rejected msg
              \<or> promise s1 = Pending
                \<and> (\<exists>pre'. butlast (split_nl (responseBuffer s1 @ concat fs))
                             = pre' @ (''ERROR:'' @ msg) # rest
                          \<and> (\<forall>l\<in>set pre'. \<not> is_terminal l)))"
proof -
  define L1 where "L1 = split_nl (responseBuffer st @ f)"
  define A where "A = butlast L1"
  define L2 where "L2 = split_nl (last L1 @ concat fs)"
  define st0 where "st0 = st\<lparr>responseBuffer := last L1\<rparr>"
  have total: "split_nl (responseBuffer st @ f @ concat fs) = A @ L2"
    using split_nl_append [of "responseBuffer st @ f" "concat fs"]
    by (simp add: L1_def A_def L2_def)
  have L2_ne: "L2 \<noteq> []" by (simp add: L2_def)
  have eq: "A @ butlast L2 = pre @ (''ERROR:'' @ msg) # rest"
    using assms(2) L2_ne by (simp add: total butlast_append)
  have step: "pv_on_stdout f st = pv_process_lines A st0"
    by (simp add: pv_on_stdout_def Let_def L1_def A_def st0_def)
  have st0: "promise st0 = Pending" "responseBuffer st0 = last L1"
    using assms(1) by (simp_all add: st0_def)
  have nl: "CHR 0x0A \<notin> set (last L1)"
    by (simp add: L1_def last_split_nl_no_newline)
  from eq obtain us where
    "A = pre @ us \<and> us @ butlast L2 = (''ERROR:'' @ msg) # rest
     \<or> A @ us = pre \<and> butlast L2 = us @ (''ERROR:'' @ msg) # rest"
    by (auto simp: append_eq_append_conv2)
  then consider
      (here) us' where "A = pre @ (''ERROR:'' @ msg) # us'"
    | (later) us where "A @ us = pre" "butlast L2 = us @ (''ERROR:'' @ msg) # rest"
    by (cases us) auto
  then show ?thesis
  proof cases
    case here
    from pv_error_line_rejects [OF st0(1) assms(3), of msg us']
    obtain s1 where "pv_process_lines A st0 = Inr s1" "promise s1 = Rejected msg"
      "responseBuffer s1 = responseBuffer st0"
      unfolding here by blast
    then show ?thesis using step st0 nl by simp
  next
    case later
    have A_ok: "\<forall>l\<in>set A. \<not> is_terminal l" and us_ok: "\<forall>l\<in>set us. \<not> is_terminal l"
      using assms(3) later(1) by auto
    from pv_nonterminal_lines [OF A_ok, of st0]
    obtain s1 where s1: "pv_process_lines A st0 = Inr s1" "promise s1 = Pending"
      "responseBuffer s1 = last L1"
      using st0 by auto
    have "butlast (split_nl (responseBuffer s1 @ concat fs)) = us @ (''ERROR:'' @ msg) # rest"
      using later(2) by (simp add: s1(3) L2_def)
    then show ?thesis using step s1 nl us_ok by auto
  qed
qed

lemma pv_settled_process_lines:
  "promise st \<noteq> Pending \<Longrightarrow> \<exists>s. pv_process_lines ls st = Inr s \<and> promise s = promise st"
proof (induction ls arbitrary: st)
  case Nil
  show ?case by simp
next
  case (Cons l ls)
  have chunk: "\<exists>s. pv_process_lines ls (stream_chunk (substring l 6) st) = Inr s
                 \<and> promise s = promise st"
    using Cons.IH [of "stream_chunk (substring l 6) st"] Cons.prems by simp
  show ?case using chunk Cons.IH [OF Cons.prems] Cons.prems by (simp add: cleanup_eq)
qed

lemma pv_settled_on_event:
  "promise st \<noteq> Pending \<Longrightarrow> \<exists>s. pv_on_event e st = Inr s \<and> promise s = promise st"
proof (cases e)
  case (StdoutData d)
  assume "promise st \<noteq> Pending"
  then show ?thesis
    using pv_settled_process_lines
            [of "st\<lparr>responseBuffer := last (split_nl (responseBuffer st @ d))\<rparr>"
                "butlast (split_nl (responseBuffer st @ d))"]
    by (simp add: StdoutData pv_on_stdout_def Let_def)
next
  case (StderrData d)
  show ?thesis by (simp add: StderrData)
next
  case (Close code)
  assume "promise st \<noteq> Pending"
  then show ?thesis by (simp add: Close pv_on_close_def cleanup_eq)
next
  case (ProcError err)
  assume "promise st \<noteq> Pending"
  then show ?thesis by (simp add: ProcError pv_on_error_def)
qed

lemma pv_stays_settled:
  "promise st \<noteq> Pending \<Longrightarrow> \<exists>s. pv_run evs st = Inr s \<and> promise s = promise st"
proof (induction evs arbitrary: st)
  case Nil
  show ?case by simp
next
  case (Cons e evs)
  from pv_settled_on_event [OF Cons.prems, of e]
  obtain s1 where 1: "pv_on_event e st = Inr s1" "promise s1 = promise st" by blast
  with Cons.IH [of s1] Cons.prems show ?case by simp
qed

lemma pv_error_line_run:
  assumes "promise st = Pending" and "fs \<noteq> []"
    and "butlast (split_nl (responseBuffer st @ concat fs)) = pre @ (''ERROR:'' @ msg) # rest"
    and "\<forall>l\<in>set pre. \<not> is_terminal l"
  shows "\<exists>s. pv_run (map StdoutData fs) st = Inr s \<and> promise s = Rejected msg"
  using assms
proof (induction fs arbitrary: st pre)
  case Nil
  then show ?case by simp
next
  case (Cons f fs)
  from pv_stdout_step [OF Cons.prems(1) _ Cons.prems(4), of f fs msg rest] Cons.prems(3)
  obtain s1 where s1: "pv_on_stdout f st = Inr s1" "CHR 0x0A \<notin> set (responseBuffer s1)"
    and alt: "promise s1 = Rejected msg
              \<or> promise s1 = Pending
                \<and> (\<exists>pre'. butlast (split_nl (responseBuffer s1 @ concat fs))
                             = pre' @ (''ERROR:'' @ msg) # rest
                          \<and> (\<forall>l\<in>set pre'. \<not> is_terminal l))"
    by auto
  from alt show ?case
  proof
    assume r: "promise s1 = Rejected msg"
    then have "promise s1 \<noteq> Pending" by simp
    from pv_stays_settled [OF this, of "map StdoutData fs"] r s1(1) show ?thesis by simp
  next
    assume "promise s1 = Pending
                \<and> (\<exists>pre'. butlast (split_nl (responseBuffer s1 @ concat fs))
                             = pre' @ (''ERROR:'' @ msg) # rest
                          \<and> (\<forall>l\<in>set pre'. \<not> is_terminal l))"
    then obtain pre' where p: "promise s1 = Pending"
      "butlast (split_nl (responseBuffer s1 @ concat fs)) = pre' @ (''ERROR:'' @ msg) # rest"
      "\<forall>l\<in>set pre'. \<not> is_terminal l" by blast
    have "fs \<noteq> []"
    proof
      assume "fs = []"
      with p(2) s1(2) show False by (simp add: split_nl_no_newline)
    qed
    from Cons.IH [OF p(1) this p(2) p(3)] s1(1) show ?thesis by simp
  qed
qed

text \<open>
  C6, as stated, fails: \<open>clearSession\<close> does not read the \<open>ERROR:\<close> line. With the
  stdout \<open>ERROR:boom\<close> and exit code 0 it rejects with its fixed message.
\<close>

theorem agent_error_counterexample:
  "clearSession_on_close (Some 0) (oneshot_init\<lparr>output' := ''ERROR:boom'' @ [CHR 0x0A]\<rparr>)
     = Inr (oneshot_init
              \<lparr>promise := Rejected ''Failed to clear session'', scriptFile := Removed,
               output' := ''ERROR:boom'' @ [CHR 0x0A]\<rparr>)
   \<and> ''Failed to clear session'' \<noteq> ''boom''"
  by (simp add: clearSession_on_close_def oneshot_init_def cleanup_def unlink_script_def
        reject_def)

text \<open>
  C6, amended. A line \<open>ERROR:\<close> followed by a message rejects the request with exactly
  that message in the two streaming operations, when it is decoded while the promise is
  pending: whenever the decoding loop, entered with the promise pending, reaches the line
  (the lines before it being neither \<open>END_STREAM\<close> nor \<open>ERROR:\<close> lines), and so however
  the stdout text is cut into events, whatever is held in the buffer and whatever lines
  come before and after the error line. \<open>clearSession\<close> and \<open>clearAgentSession\<close> never
  read such a line: they resolve when the exit code is 0 and stdout contains \<open>SUCCESS\<close>,
  and reject with the fixed message \<open>Failed to clear session\<close> otherwise.
  \<open>getSessionHistory\<close> rejects with \<open>Failed to parse history response\<close> when the exit
  code is 0 and stdout (an \<open>ERROR:\<close> line, say) is not JSON.
\<close>

theorem agent_error_lines:
  "(promise s = Pending \<and> (\<forall>l\<in>set pre. \<not> is_terminal l)
      \<longrightarrow> (\<exists>s'. process_lines (pre @ (''ERROR:'' @ msg) # rest) s = Inr s'
                 \<and> promise s' = Rejected msg))
   \<and> (promise s = Pending \<and> fs \<noteq> []
        \<and> butlast (split_nl (responseBuffer s @ concat fs)) = pre @ (''ERROR:'' @ msg) # rest
        \<and> (\<forall>l\<in>set pre. \<not> is_terminal l)
      \<longrightarrow> (\<exists>s'. run (map StdoutData fs) s = Inr s' \<and> promise s' = Rejected msg))
   \<and> (promise p = Pending \<and> (\<forall>l\<in>set pre. \<not> is_terminal l)
      \<longrightarrow> (\<exists>p'. pv_process_lines (pre @ (''ERROR:'' @ msg) # rest) p = Inr p'
                 \<and> promise p' = Rejected msg))
   \<and> (promise p = Pending \<and> fs \<noteq> []
        \<and> butlast (split_nl (responseBuffer p @ concat fs)) = pre @ (''ERROR:'' @ msg) # rest
        \<and> (\<forall>l\<in>set pre. \<not> is_terminal l)
      \<longrightarrow> (\<exists>p'. pv_run (map StdoutData fs) p = Inr p' \<and> promise p' = Rejected msg))
   \<and> (promise c = Pending
      \<longrightarrow> (\<exists>c'. clearSession_on_close code c = Inr c'
                 \<and> promise c' = (if code = Some 0 \<and> str_includes (output' c) ''SUCCESS''
                                  then Resolved () else Rejected ''Failed to clear session''))
        \<and> (\<exists>c'. clearAgentSession_on_close code c = Inr c'
                 \<and> promise c' = (if code = Some 0 \<and> str_includes (output' c) ''SUCCESS''
                                  then Resolved () else Rejected ''Failed to clear session'')))
   \<and> (promise h = Pending \<and> JSON_parse (trim (output' h)) = None
      \<longrightarrow> (\<exists>h'. getSessionHistory_on_close JSON_parse (Some 0) h = Inr h'
                 \<and> promise h' = Rejected ''Failed to parse history response''))"
proof -
  have loop: "promise s = Pending \<and> (\<forall>l\<in>set pre. \<not> is_terminal l)
      \<longrightarrow> (\<exists>s'. process_lines (pre @ (''ERROR:'' @ msg) # rest) s = Inr s'
                 \<and> promise s' = Rejected msg)"
    using error_line_rejects [of s pre msg rest] by blast
  have stream: "promise s = Pending \<and> fs \<noteq> []
        \<and> butlast (split_nl (responseBuffer s @ concat fs)) = pre @ (''ERROR:'' @ msg) # rest
        \<and> (\<forall>l\<in>set pre. \<not> is_terminal l)
      \<longrightarrow> (\<exists>s'. run (map StdoutData fs) s = Inr s' \<and> promise s' = Rejected msg)"
    using error_line_run [of s fs pre msg rest] by blast
  have pv_loop: "promise p = Pending \<and> (\<forall>l\<in>set pre. \<not> is_terminal l)
      \<longrightarrow> (\<exists>p'. pv_process_lines (pre @ (''ERROR:'' @ msg) # rest) p = Inr p'
                 \<and> promise p' = Rejected msg)"
    using pv_error_line_rejects [of p pre msg rest] by blast
  have pv: "promise p = Pending \<and> fs \<noteq> []
        \<and> butlast (split_nl (responseBuffer p @ concat fs)) = pre @ (''ERROR:'' @ msg) # rest
        \<and> (\<forall>l\<in>set pre. \<not> is_terminal l)
      \<longrightarrow> (\<exists>p'. pv_run (map StdoutData fs) p = Inr p' \<and> promise p' = Rejected msg)"
    using pv_error_line_run [of p fs pre msg rest] by blast
  have clear: "promise c = Pending
      \<longrightarrow> (\<exists>c'. clearSession_on_close code c = Inr c'
                 \<and> promise c' = (if code = Some 0 \<and> str_includes (output' c) ''SUCCESS''
                                  then Resolved () else Rejected ''Failed to clear session''))
        \<and> (\<exists>c'. clearAgentSession_on_close code c = Inr c'
                 \<and> promise c' = (if code = Some 0 \<and> str_includes (output' c) ''SUCCESS''
                                  then Resolved () else Rejected ''Failed to clear session''))"
    by (cases "scriptFile c")
       (simp_all add: clearSession_on_close_def clearAgentSession_on_close_def cleanup_eq
          after_cleanup_def console_error_def promise_resolve promise_reject)
  have hist: "promise h = Pending \<and> JSON_parse (trim (output' h)) = None
      \<longrightarrow> (\<exists>h'. getSessionHistory_on_close JSON_parse (Some 0) h = Inr h'
                 \<and> promise h' = Rejected ''Failed to parse history response'')"
    by (cases "scriptFile h")
       (simp_all add: getSessionHistory_on_close_def parse_history_def cleanup_eq
          after_cleanup_def console_error_def promise_reject)
  from loop stream pv_loop pv clear hist show ?thesis by blast
qed

text \<open>
  The agent reports \<open>boom\<close> to each of the operations; for the streaming ones, after a
  chunk line, with the error line cut across two stdout events and a further line after
  it.
\<close>

theorem agent_error_lines_witness:
  "(\<exists>s'. process_lines ([''CHUNK:x''] @ (''ERROR:'' @ ''boom'') # [''CHUNK:y'']) sendMessage_init
            = Inr s'
        \<and> promise s' = Rejected ''boom'')
   \<and> (\<exists>s'. run (map StdoutData [''CHUNK:x'' @ [CHR 0x0A] @ ''ERR'',
                                  ''OR:boom'' @ [CHR 0x0A] @ ''CHUNK:y'' @ [CHR 0x0A]])
              sendMessage_init = Inr s'
        \<and> promise s' = Rejected ''boom'')
   \<and> (\<exists>p'. pv_process_lines ([''CHUNK:x''] @ (''ERROR:'' @ ''boom'') # [''CHUNK:y''])
              (sendMessageToAgent_init True) = Inr p'
        \<and> promise p' = Rejected ''boom'')
   \<and> (\<exists>p'. pv_run (map StdoutData [''CHUNK:x'' @ [CHR 0x0A] @ ''ERR'',
                                     ''OR:boom'' @ [CHR 0x0A] @ ''CHUNK:y'' @ [CHR 0x0A]])
              (sendMessageToAgent_init True) = Inr p'
        \<and> promise p' = Rejected ''boom'')
   \<and> (\<exists>c'. clearSession_on_close (Some 0)
               (oneshot_init\<lparr>output' := ''ERROR:boom'' @ [CHR 0x0A]\<rparr>) = Inr c'
        \<and> promise c' = Rejected ''Failed to clear session'')
   \<and> (\<exists>c'. clearAgentSession_on_close (Some 0)
               (oneshot_init\<lparr>output' := ''ERROR:boom'' @ [CHR 0x0A]\<rparr>) = Inr c'
        \<and> promise c' = Rejected ''Failed to clear session'')
   \<and> (\<exists>h'. getSessionHistory_on_close (\<lambda>t. if t = ''[]'' then Some (JArray []) else None) (Some 0)
               (oneshot_init\<lparr>output' := ''ERROR:boom'' @ [CHR 0x0A]\<rparr>) = Inr h'
        \<and> promise h' = Rejected ''Failed to parse history response'')"
proof -
  let ?fs = "[''CHUNK:x'' @ [CHR 0x0A] @ ''ERR'', ''OR:boom'' @ [CHR 0x0A] @ ''CHUNK:y'' @ [CHR 0x0A]]"
  have lines: "butlast (split_nl (concat ?fs)) = [''CHUNK:x''] @ (''ERROR:'' @ ''boom'') # [''CHUNK:y'']"
    by (simp add: split_nl_def del: split_nl_Cons split_nl_Nil)
  have pre: "\<forall>l\<in>set [''CHUNK:x'']. \<not> is_terminal l"
    by (simp add: is_terminal_def startsWith_def)
  have init: "promise sendMessage_init = Pending" "responseBuffer sendMessage_init = []"
    "promise (sendMessageToAgent_init True) = Pending"
    "responseBuffer (sendMessageToAgent_init True) = []"
    by (simp_all add: sendMessage_init_def sendMessageToAgent_init_def)
  have one: "promise (oneshot_init\<lparr>output' := ''ERROR:boom'' @ [CHR 0x0A]\<rparr>) = Pending"
    "\<not> str_includes (output' (oneshot_init\<lparr>output' := ''ERROR:boom'' @ [CHR 0x0A]\<rparr>)) ''SUCCESS''"
    "(\<lambda>t. if t = ''[]'' then Some (JArray []) else None)
        (trim (output' (oneshot_init\<lparr>output' := ''ERROR:boom'' @ [CHR 0x0A]\<rparr>))) = None"
    by (simp_all add: oneshot_init_def trim_def is_space_def)
  have lines': "butlast (split_nl (responseBuffer sendMessage_init @ concat ?fs))
                  = [''CHUNK:x''] @ (''ERROR:'' @ ''boom'') # [''CHUNK:y'']"
    "butlast (split_nl (responseBuffer (sendMessageToAgent_init True) @ concat ?fs))
                  = [''CHUNK:x''] @ (''ERROR:'' @ ''boom'') # [''CHUNK:y'']"
    using lines by (simp_all only: init append_Nil)
  have ne: "?fs \<noteq> []" by (rule list.distinct(2))
  note inst = agent_error_lines
          [where s = sendMessage_init and msg = "''boom''" and pre = "[''CHUNK:x'']"
             and rest = "[''CHUNK:y'']" and fs = ?fs
             and p = "sendMessageToAgent_init True"
             and c = "oneshot_init\<lparr>output' := ''ERROR:boom'' @ [CHR 0x0A]\<rparr>"
             and code = "Some 0"
             and h = "oneshot_init\<lparr>output' := ''ERROR:boom'' @ [CHR 0x0A]\<rparr>"
             and JSON_parse = "\<lambda>t. if t = ''[]'' then Some (JArray []) else None"]
  note i1 = inst [THEN conjunct1]
    and i2 = inst [THEN conjunct2, THEN conjunct1]
    and i3 = inst [THEN conjunct2, THEN conjunct2, THEN conjunct1]
    and i4 = inst [THEN conjunct2, THEN conjunct2, THEN conjunct2, THEN conjunct1]
    and i5 = inst [THEN conjunct2, THEN conjunct2, THEN conjunct2, THEN conjunct2, THEN conjunct1]
    and i6 = inst [THEN conjunct2, THEN conjunct2, THEN conjunct2, THEN conjunct2, THEN conjunct2]
  have r1: "\<exists>s'. process_lines ([''CHUNK:x''] @ (''ERROR:'' @ ''boom'') # [''CHUNK:y''])
                   sendMessage_init = Inr s' \<and> promise s' = Rejected ''boom''"
    by (rule i1 [THEN mp]) (intro conjI init pre)
  have r2: "\<exists>s'. run (map StdoutData ?fs) sendMessage_init = Inr s'
               \<and> promise s' = Rejected ''boom''"
    by (rule i2 [THEN mp]) (intro conjI init ne lines' pre)
  have r3: "\<exists>p'. pv_process_lines ([''CHUNK:x''] @ (''ERROR:'' @ ''boom'') # [''CHUNK:y''])
                   (sendMessageToAgent_init True) = Inr p' \<and> promise p' = Rejected ''boom''"
    by (rule i3 [THEN mp]) (intro conjI init pre)
  have r4: "\<exists>p'. pv_run (map StdoutData ?fs) (sendMessageToAgent_init True) = Inr p'
               \<and> promise p' = Rejected ''boom''"
    by (rule i4 [THEN mp]) (intro conjI init ne lines' pre)
  have r5: "(\<exists>c'. clearSession_on_close (Some 0)
               (oneshot_init\<lparr>output' := ''ERROR:boom'' @ [CHR 0x0A]\<rparr>) = Inr c'
        \<and> promise c' = Rejected ''Failed to clear session'')
   \<and> (\<exists>c'. clearAgentSession_on_close (Some 0)
               (oneshot_init\<lparr>output' := ''ERROR:boom'' @ [CHR 0x0A]\<rparr>) = Inr c'
        \<and> promise c' = Rejected ''Failed to clear session'')"
    using i5 [THEN mp, OF one(1)] one(2) by simp
  have r6: "\<exists>h'. getSessionHistory_on_close (\<lambda>t. if t = ''[]'' then Some (JArray []) else None) (Some 0)
               (oneshot_init\<lparr>output' := ''ERROR:boom'' @ [CHR 0x0A]\<rparr>) = Inr h'
        \<and> promise h' = Rejected ''Failed to parse history response''"
    by (rule i6 [THEN mp]) (intro conjI one)
  from r5 have r5a: "\<exists>c'. clearSession_on_close (Some 0)
               (oneshot_init\<lparr>output' := ''ERROR:boom'' @ [CHR 0x0A]\<rparr>) = Inr c'
        \<and> promise c' = Rejected ''Failed to clear session''"
    and r5b: "\<exists>c'. clearAgentSession_on_close (Some 0)
               (oneshot_init\<lparr>output' := ''ERROR:boom'' @ [CHR 0x0A]\<rparr>) = Inr c'
        \<and> promise c' = Rejected ''Failed to clear session''"
    by (simp_all only: conj_imp_eq_imp_imp simp_thms)
  show ?thesis
    by (intro conjI r1 r2 r3 r4 r5a r5b r6)
qed

section \<open>Cleaning up the script file\<close>

lemma alike_after_cleanup: "alike a b \<Longrightarrow> alike (after_cleanup a) (after_cleanup b)"
  by (cases "scriptFile a"; cases "scriptFile b")
     (simp_all add: alike_def after_cleanup_def console_error_def)

lemma alike_steps:
  "alike a b \<Longrightarrow> alike (mark f a) (mark f b)"
  "alike a b \<Longrightarrow> alike (onChunk c a) (onChunk c b)"
  "alike a b \<Longrightarrow> alike (resolve v a) (resolve v b)"
  "alike a b \<Longrightarrow> alike (reject m a) (reject m b)"
  "alike a b \<Longrightarrow> alike (console_error m a) (console_error m b)"
  "alike a b \<Longrightarrow> alike (a\<lparr>responseBuffer := x\<rparr>) (b\<lparr>responseBuffer := x\<rparr>)"
  by (simp_all add: alike_def mark_def onChunk_def resolve_def reject_def console_error_def)

lemma alike_process_lines:
  "alike a b \<Longrightarrow>
     \<exists>a' b'. process_lines ls a = Inr a' \<and> process_lines ls b = Inr b' \<and> alike a' b'"
proof (induction ls arbitrary: a b)
  case Nil
  then show ?case by simp
next
  case (Cons l ls)
  let ?c = "substring l 6"
  have "alike (onChunk ?c (mark (Chunk ?c) a)) (onChunk ?c (mark (Chunk ?c) b))"
    using Cons.prems by (intro alike_steps)
  from Cons.IH [OF this]
  have chunk: "\<exists>a' b'. process_lines ls (onChunk ?c (mark (Chunk ?c) a)) = Inr a'
                 \<and> process_lines ls (onChunk ?c (mark (Chunk ?c) b)) = Inr b' \<and> alike a' b'" .
  have fin: "alike (resolve () (after_cleanup (mark End a))) (resolve () (after_cleanup (mark End b)))"
    using Cons.prems by (intro alike_steps alike_after_cleanup)
  have err: "alike (reject ?c (mark (Error ?c) a)) (reject ?c (mark (Error ?c) b))"
    using Cons.prems by (intro alike_steps)
  show ?case
    using chunk fin err Cons.IH [OF Cons.prems] by (simp add: cleanup_eq)
qed

lemma alike_on_event:
  "alike a b \<Longrightarrow> \<exists>a' b'. on_event e a = Inr a' \<and> on_event e b = Inr b' \<and> alike a' b'"
proof (cases e)
  case (StdoutData d)
  assume ab: "alike a b"
  then have buf: "responseBuffer b = responseBuffer a" by (simp add: alike_def)
  have "alike (a\<lparr>responseBuffer := last (split_nl (responseBuffer a @ d))\<rparr>)
          (b\<lparr>responseBuffer := last (split_nl (responseBuffer a @ d))\<rparr>)"
    using ab by (rule alike_steps)
  from alike_process_lines [OF this, of "butlast (split_nl (responseBuffer a @ d))"]
  show ?thesis by (simp add: StdoutData on_stdout_def Let_def buf)
next
  case (StderrData d)
  assume "alike a b"
  then show ?thesis by (simp add: StderrData on_stderr_def alike_steps)
next
  case (Close code)
  assume "alike a b"
  then have "alike (after_cleanup a) (after_cleanup b)" by (rule alike_after_cleanup)
  then show ?thesis by (simp add: Close close_result alike_steps)
next
  case (ProcError err)
  assume "alike a b"
  then show ?thesis by (simp add: ProcError on_error_def alike_steps)
qed

lemma alike_run:
  "alike a b \<Longrightarrow> \<exists>a' b'. run evs a = Inr a' \<and> run evs b = Inr b' \<and> alike a' b'"
proof (induction evs arbitrary: a b)
  case Nil
  then show ?case by simp
next
  case (Cons e evs)
  from alike_on_event [OF Cons.prems, of e]
  obtain a1 b1 where 1: "on_event e a = Inr a1" "on_event e b = Inr b1" "alike a1 b1" by blast
  from Cons.IH [OF 1(3)] 1 show ?case by simp
qed

lemma pv_alike_after_cleanup: "pv_alike a b \<Longrightarrow> pv_alike (after_cleanup a) (after_cleanup b)"
  by (cases "scriptFile a"; cases "scriptFile b")
     (simp_all add: pv_alike_def after_cleanup_def console_error_def)

lemma pv_alike_steps:
  "pv_alike a b \<Longrightarrow> pv_alike (mark f a) (mark f b)"
  "pv_alike a b \<Longrightarrow> pv_alike (stream_chunk c a) (stream_chunk c b)"
  "pv_alike a b \<Longrightarrow> pv_alike (final_message a) (final_message b)"
  "pv_alike a b \<Longrightarrow> pv_alike (resolve v a) (resolve v b)"
  "pv_alike a b \<Longrightarrow> pv_alike (reject m a) (reject m b)"
  "pv_alike a b \<Longrightarrow> pv_alike (a\<lparr>responseBuffer := x\<rparr>) (b\<lparr>responseBuffer := x\<rparr>)"
  by (simp_all add: pv_alike_def mark_def stream_chunk_def final_message_def postMessage_def
        Let_def resolve_def reject_def)

lemma pv_alike_process_lines:
  "pv_alike a b \<Longrightarrow>
     \<exists>a' b'. pv_process_lines ls a = Inr a' \<and> pv_process_lines ls b = Inr b' \<and> pv_alike a' b'"
proof (induction ls arbitrary: a b)
  case Nil
  then show ?case by simp
next
  case (Cons l ls)
  let ?c = "substring l 6"
  have "pv_alike (stream_chunk ?c a) (stream_chunk ?c b)"
    using Cons.prems by (intro pv_alike_steps)
  from Cons.IH [OF this]
  have chunk: "\<exists>a' b'. pv_process_lines ls (stream_chunk ?c a) = Inr a'
                 \<and> pv_process_lines ls (stream_chunk ?c b) = Inr b' \<and> pv_alike a' b'" .
  have fin: "pv_alike (resolve () (after_cleanup (final_message a)))
               (resolve () (after_cleanup (final_message b)))"
    using Cons.prems by (intro pv_alike_steps pv_alike_after_cleanup)
  have err: "pv_alike (reject ?c (mark (Error ?c) a)) (reject ?c (mark (Error ?c) b))"
    using Cons.prems by (intro pv_alike_steps)
  show ?case
    using chunk fin err Cons.IH [OF Cons.prems] by (simp add: cleanup_eq)
qed

lemma pv_close_result:
  "pv_on_close code st =
     Inr (if code \<noteq> Some 0
          then reject (''Python process exited with code '' @ string_of_code code) (after_cleanup st)
          else resolve () (after_cleanup st))"
  by (simp add: pv_on_close_def cleanup_eq)

lemma pv_alike_on_event:
  "pv_alike a b \<Longrightarrow> \<exists>a' b'. pv_on_event e a = Inr a' \<and> pv_on_event e b = Inr b' \<and> pv_alike a' b'"
proof (cases e)
  case (StdoutData d)
  assume ab: "pv_alike a b"
  then have buf: "responseBuffer b = responseBuffer a" by (simp add: pv_alike_def)
  have "pv_alike (a\<lparr>responseBuffer := last (split_nl (responseBuffer a @ d))\<rparr>)
          (b\<lparr>responseBuffer := last (split_nl (responseBuffer a @ d))\<rparr>)"
    using ab by (rule pv_alike_steps)
  from pv_alike_process_lines [OF this, of "butlast (split_nl (responseBuffer a @ d))"]
  show ?thesis by (simp add: StdoutData pv_on_stdout_def Let_def buf)
next
  case (StderrData d)
  assume "pv_alike a b"
  then show ?thesis by (simp add: StderrData)
next
  case (Close code)
  assume "pv_alike a b"
  then have "pv_alike (after_cleanup a) (after_cleanup b)" by (rule pv_alike_after_cleanup)
  then show ?thesis by (simp add: Close pv_close_result pv_alike_steps)
next
  case (ProcError err)
  assume "pv_alike a b"
  then show ?thesis by (simp add: ProcError pv_on_error_def pv_alike_steps)
qed

lemma pv_alike_run:
  "pv_alike a b \<Longrightarrow> \<exists>a' b'. pv_run evs a = Inr a' \<and> pv_run evs b = Inr b' \<and> pv_alike a' b'"
proof (induction evs arbitrary: a b)
  case Nil
  then show ?case by simp
next
  case (Cons e evs)
  from pv_alike_on_event [OF Cons.prems, of e]
  obtain a1 b1 where 1: "pv_on_event e a = Inr a1" "pv_on_event e b = Inr b1" "pv_alike a1 b1"
    by blast
  from Cons.IH [OF 1(3)] 1 show ?case by simp
qed

text \<open>
  C7. Deleting the script never escalates. The \<open>try\<close>/\<open>catch\<close> around \<open>unlinkSync\<close>
  turns every failure into one console line and lets no exception out; no listener of
  either streaming operation raises, whatever the state of the file; what the caller
  observes (promise, decoded frames, delivered chunks) does not depend on whether a
  deletion fails; on the \<open>END_STREAM\<close> path the second deletion, in the close
  listener, fails with \<open>ENOENT\<close>, is logged, and leaves the promise resolved; and the
  outcome of \<open>clearSession\<close>, \<open>clearAgentSession\<close> and \<open>getSessionHistory\<close> does not
  depend on the deletion either.
\<close>

theorem cleanup_never_escalates:
  "cleanup st
     = Inr (case unlinkSync (scriptFile st) of
              Inl e \<Rightarrow> console_error (''Failed to clean up temp file: '' @ error_text e) st
            | Inr d' \<Rightarrow> st\<lparr>scriptFile := d'\<rparr>)
   \<and> (\<exists>st'. cleanup st = Inr st' \<and> promise st' = promise st)
   \<and> (\<exists>a b. run evs (s\<lparr>scriptFile := da\<rparr>) = Inr a \<and> run evs (s\<lparr>scriptFile := db\<rparr>) = Inr b
        \<and> promise a = promise b \<and> decoded a = decoded b \<and> onChunk_calls a = onChunk_calls b)
   \<and> (\<exists>a b. pv_run evs (p\<lparr>scriptFile := da\<rparr>) = Inr a \<and> pv_run evs (p\<lparr>scriptFile := db\<rparr>) = Inr b
        \<and> promise a = promise b \<and> decoded a = decoded b \<and> posted a = posted b)
   \<and> (\<exists>a. run [StdoutData (''END_STREAM'' @ [CHR 0x0A]), Close code] sendMessage_init = Inr a
        \<and> promise a = Resolved () \<and> scriptFile a = Removed
        \<and> console a = [''Failed to clean up temp file: ENOENT''])
   \<and> (\<exists>a. pv_run [StdoutData (''END_STREAM'' @ [CHR 0x0A]), Close code]
              (sendMessageToAgent_init True) = Inr a
        \<and> promise a = Resolved () \<and> scriptFile a = Removed
        \<and> console a = [''Failed to clean up temp file: ENOENT''])
   \<and> (\<exists>a b. clearSession_on_close code (c\<lparr>scriptFile := da\<rparr>) = Inr a
        \<and> clearSession_on_close code (c\<lparr>scriptFile := db\<rparr>) = Inr b
        \<and> promise a = promise b)
   \<and> (\<exists>a b. clearAgentSession_on_close code (c\<lparr>scriptFile := da\<rparr>) = Inr a
        \<and> clearAgentSession_on_close code (c\<lparr>scriptFile := db\<rparr>) = Inr b
        \<and> promise a = promise b)
   \<and> (\<exists>a b. getSessionHistory_on_close JSON_parse code (h\<lparr>scriptFile := da\<rparr>) = Inr a
        \<and> getSessionHistory_on_close JSON_parse code (h\<lparr>scriptFile := db\<rparr>) = Inr b
        \<and> promise a = promise b)"
proof -
  have c1: "cleanup st
     = Inr (case unlinkSync (scriptFile st) of
              Inl e \<Rightarrow> console_error (''Failed to clean up temp file: '' @ error_text e) st
            | Inr d' \<Rightarrow> st\<lparr>scriptFile := d'\<rparr>)"
    by (simp add: cleanup_eq after_cleanup_def)
  have c2: "\<exists>st'. cleanup st = Inr st' \<and> promise st' = promise st"
    by (simp add: cleanup_eq)
  have "alike (s\<lparr>scriptFile := da\<rparr>) (s\<lparr>scriptFile := db\<rparr>)"
    by (simp add: alike_def)
  from alike_run [OF this, of evs]
  have c3: "\<exists>a b. run evs (s\<lparr>scriptFile := da\<rparr>) = Inr a \<and> run evs (s\<lparr>scriptFile := db\<rparr>) = Inr b
        \<and> promise a = promise b \<and> decoded a = decoded b \<and> onChunk_calls a = onChunk_calls b"
    by (auto simp: alike_def)
  have "pv_alike (p\<lparr>scriptFile := da\<rparr>) (p\<lparr>scriptFile := db\<rparr>)"
    by (simp add: pv_alike_def)
  from pv_alike_run [OF this, of evs]
  have c4: "\<exists>a b. pv_run evs (p\<lparr>scriptFile := da\<rparr>) = Inr a \<and> pv_run evs (p\<lparr>scriptFile := db\<rparr>) = Inr b
        \<and> promise a = promise b \<and> decoded a = decoded b \<and> posted a = posted b"
    by (auto simp: pv_alike_def)
  have c5: "\<exists>a. run [StdoutData (''END_STREAM'' @ [CHR 0x0A]), Close code] sendMessage_init = Inr a
        \<and> promise a = Resolved () \<and> scriptFile a = Removed
        \<and> console a = [''Failed to clean up temp file: ENOENT'']"
    by (simp add: sendMessage_init_def on_stdout_def on_close_def split_nl_def startsWith_def
          mark_def cleanup_def unlink_script_def console_error_def resolve_def reject_def
          del: split_nl_Cons split_nl_Nil)
  have c6: "\<exists>a. pv_run [StdoutData (''END_STREAM'' @ [CHR 0x0A]), Close code]
              (sendMessageToAgent_init True) = Inr a
        \<and> promise a = Resolved () \<and> scriptFile a = Removed
        \<and> console a = [''Failed to clean up temp file: ENOENT'']"
    by (simp add: sendMessageToAgent_init_def pv_on_stdout_def pv_on_close_def split_nl_def
          startsWith_def mark_def final_message_def postMessage_def Let_def
          cleanup_def unlink_script_def console_error_def resolve_def reject_def
          del: split_nl_Cons split_nl_Nil)
  have c7: "\<exists>a b. clearSession_on_close code (c\<lparr>scriptFile := da\<rparr>) = Inr a
        \<and> clearSession_on_close code (c\<lparr>scriptFile := db\<rparr>) = Inr b
        \<and> promise a = promise b"
    by (cases da; cases db)
       (simp_all add: clearSession_on_close_def cleanup_eq after_cleanup_def console_error_def
          resolve_def reject_def)
  have c8: "\<exists>a b. clearAgentSession_on_close code (c\<lparr>scriptFile := da\<rparr>) = Inr a
        \<and> clearAgentSession_on_close code (c\<lparr>scriptFile := db\<rparr>) = Inr b
        \<and> promise a = promise b"
    by (cases da; cases db)
       (simp_all add: clearAgentSession_on_close_def cleanup_eq after_cleanup_def
          console_error_def resolve_def reject_def)
  have c9: "\<exists>a b. getSessionHistory_on_close JSON_parse code (h\<lparr>scriptFile := da\<rparr>) = Inr a
        \<and> getSessionHistory_on_close JSON_parse code (h\<lparr>scriptFile := db\<rparr>) = Inr b
        \<and> promise a = promise b"
    by (cases da; cases db)
       (simp_all add: getSessionHistory_on_close_def cleanup_eq after_cleanup_def
          console_error_def resolve_def reject_def split: sum.splits)
  from c1 c2 c3 c4 c5 c6 c7 c8 c9 show ?thesis by blast
qed


text \<open>
  A file already gone, and the same events run with a file that deletes and with one that
  cannot be deleted.
\<close>

theorem cleanup_never_escalates_witness:
  "cleanup (sendMessage_init\<lparr>scriptFile := Removed\<rparr>)
     = Inr (console_error ''Failed to clean up temp file: ENOENT''
              (sendMessage_init\<lparr>scriptFile := Removed\<rparr>))
   \<and> (\<exists>a b. run [StdoutData (''CHUNK:a'' @ [CHR 0x0A] @ ''END_STREAM'' @ [CHR 0x0A]), Close (Some 1)]
               (sendMessage_init\<lparr>scriptFile := OnDisk\<rparr>) = Inr a
          \<and> run [StdoutData (''CHUNK:a'' @ [CHR 0x0A] @ ''END_STREAM'' @ [CHR 0x0A]), Close (Some 1)]
               (sendMessage_init\<lparr>scriptFile := Undeletable\<rparr>) = Inr b
          \<and> promise a = promise b \<and> decoded a = decoded b \<and> onChunk_calls a = onChunk_calls b)"
  using cleanup_never_escalates
          [where st = "sendMessage_init\<lparr>scriptFile := Removed\<rparr>"
             and s = sendMessage_init and da = OnDisk and db = Undeletable
             and evs = "[StdoutData (''CHUNK:a'' @ [CHR 0x0A] @ ''END_STREAM'' @ [CHR 0x0A]), Close (Some 1)]"
             and p = "sendMessageToAgent_init True" and code = "Some 1"]
  by (simp add: sendMessage_init_def)

section \<open>History retrieval\<close>

lemma history_close_result:
  "getSessionHistory_on_close JSON_parse code h =
     Inr (if code = Some 0 then
            (case parse_history JSON_parse (output' h) of
               Inl e \<Rightarrow> reject ''Failed to parse history response'' (after_cleanup h)
             | Inr messages \<Rightarrow> resolve messages (after_cleanup h))
          else reject (''Failed to get history, exit code: '' @ string_of_code code)
                 (after_cleanup h))"
  by (cases "scriptFile h")
     (simp_all add: getSessionHistory_on_close_def cleanup_eq after_cleanup_def console_error_def
        split: sum.splits)

text \<open>
  C8. For a history request still pending when the process closes: with exit code 0 and a
  stdout that is not valid JSON (or is JSON that cannot be mapped to messages) the promise
  is rejected with \<open>Failed to parse history response\<close>; with any other exit code it is
  rejected with \<open>Failed to get history, exit code:\<close> and the code; the two messages
  differ for every exit code.
\<close>

theorem history_failures_distinct:
  assumes "promise h = Pending"
  shows "(JSON_parse (trim (output' h)) = None
           \<longrightarrow> (\<exists>h'. getSessionHistory_on_close JSON_parse (Some 0) h = Inr h'
                     \<and> promise h' = Rejected ''Failed to parse history response''))
       \<and> ((\<exists>e. parse_history JSON_parse (output' h) = Inl e)
           \<longrightarrow> (\<exists>h'. getSessionHistory_on_close JSON_parse (Some 0) h = Inr h'
                     \<and> promise h' = Rejected ''Failed to parse history response''))
       \<and> (code \<noteq> Some 0
           \<longrightarrow> (\<exists>h'. getSessionHistory_on_close JSON_parse code h = Inr h'
                     \<and> promise h' = Rejected (''Failed to get history, exit code: ''
                                                 @ string_of_code code)))
       \<and> ''Failed to get history, exit code: '' @ string_of_code code
           \<noteq> ''Failed to parse history response''"
  using assms
  by (auto simp: history_close_result parse_history_def promise_reject)

text \<open>Output that is no JSON, with exit code 0 and with exit code 2.\<close>

theorem history_failures_distinct_witness:
  "(\<exists>h'. getSessionHistory_on_close (\<lambda>t. if t = ''[]'' then Some (JArray []) else None) (Some 0)
            (oneshot_init\<lparr>output' := ''Traceback'' @ [CHR 0x0A]\<rparr>) = Inr h'
       \<and> promise h' = Rejected ''Failed to parse history response'')
   \<and> (\<exists>h'. getSessionHistory_on_close (\<lambda>t. if t = ''[]'' then Some (JArray []) else None) (Some 2)
            (oneshot_init\<lparr>output' := ''Traceback'' @ [CHR 0x0A]\<rparr>) = Inr h'
       \<and> promise h' = Rejected ''Failed to get history, exit code: 2'')"
proof -
  have two: "number_text 2 = ''2''"
    by code_simp
  show ?thesis
    using history_failures_distinct
          [where h = "oneshot_init\<lparr>output' := ''Traceback'' @ [CHR 0x0A]\<rparr>"
             and JSON_parse = "\<lambda>t. if t = ''[]'' then Some (JArray []) else None"
             and code = "Some 2"]
    by (simp add: oneshot_init_def trim_def is_space_def two)
qed

section \<open>The two streaming operations\<close>

text \<open>
  C9. Given the same events (in particular any sequence of stdout fragments followed by a
  close with any exit code), \<open>sendMessageToAgent\<close>, called as \<open>handleSendMessage\<close> calls
  it, with the view set, and \<open>sendMessage\<close> act on the same frames in the same order,
  deliver the same chunk texts in the same order (to the webview and to \<open>onChunk\<close>), and
  settle their promises alike.
\<close>

theorem streaming_operations_agree:
  "(\<exists>p s. pv_run evs (sendMessageToAgent_init True) = Inr p \<and> run evs sendMessage_init = Inr s
        \<and> decoded p = decoded s \<and> streamed (posted p) = onChunk_calls s
        \<and> promise p = promise s)
   \<and> (\<exists>p s. pv_run (map StdoutData fs @ [Close code]) (sendMessageToAgent_init True) = Inr p
        \<and> run (map StdoutData fs @ [Close code]) sendMessage_init = Inr s
        \<and> decoded p = decoded s \<and> streamed (posted p) = onChunk_calls s
        \<and> promise p = promise s)"
proof -
  have "\<exists>p s. pv_run es (sendMessageToAgent_init True) = Inr p \<and> run es sendMessage_init = Inr s
        \<and> decoded p = decoded s \<and> streamed (posted p) = onChunk_calls s
        \<and> promise p = promise s" for es
    using agree_run [OF agree_init, of es True]
    by (auto simp: agree_def sendMessageToAgent_init_def)
  then show ?thesis by blast
qed

text \<open>Two chunks in three fragments, an error reported late, exit code 1.\<close>

theorem streaming_operations_agree_witness:
  "\<exists>p s. pv_run (map StdoutData [''CHUNK:a'' @ [CHR 0x0A] @ ''CHU'', ''NK:b'' @ [CHR 0x0A],
                      ''ERROR:late'' @ [CHR 0x0A]] @ [Close (Some 1)])
            (sendMessageToAgent_init True) = Inr p
     \<and> run (map StdoutData [''CHUNK:a'' @ [CHR 0x0A] @ ''CHU'', ''NK:b'' @ [CHR 0x0A],
                      ''ERROR:late'' @ [CHR 0x0A]] @ [Close (Some 1)]) sendMessage_init = Inr s
     \<and> decoded p = decoded s \<and> streamed (posted p) = onChunk_calls s
     \<and> promise p = promise s"
  using streaming_operations_agree
          [where fs = "[''CHUNK:a'' @ [CHR 0x0A] @ ''CHU'', ''NK:b'' @ [CHR 0x0A],
                        ''ERROR:late'' @ [CHR 0x0A]]" and code = "Some 1"]
  by blast

section \<open>The current session\<close>

text \<open>
  C10. A new service answers \<open>vscode_session\<close> to \<open>getCurrentSessionId\<close>; after
  \<open>setSessionId(s)\<close> it answers \<open>s\<close>; and \<open>sendMessage\<close>, \<open>getSessionHistory\<close> and
  \<open>clearSession\<close> called without a session id use the current one: it is the session
  written into the script each of them generates.
\<close>

theorem current_session_routing:
  "getCurrentSessionId new_AIAgentService = ''vscode_session''
   \<and> getCurrentSessionId (setSessionId s this) = s
   \<and> sendMessage_session this None = getCurrentSessionId this
   \<and> getSessionHistory_session this None = getCurrentSessionId this
   \<and> clearSession_session this None = getCurrentSessionId this
   \<and> sendMessage_pythonScript this message None
       = chat_script (agentPath this) message (getCurrentSessionId this)
   \<and> getSessionHistory_pythonScript this None
       = history_script (agentPath this) (getCurrentSessionId this)
   \<and> clearSession_pythonScript this None
       = clear_script (agentPath this) (getCurrentSessionId this)
   \<and> sendMessage_session (setSessionId s this) None = s
   \<and> getSessionHistory_session (setSessionId s this) None = s
   \<and> clearSession_session (setSessionId s this) None = s"
  by (simp add: getCurrentSessionId_def setSessionId_def new_AIAgentService_def or_else_def
        sendMessage_session_def getSessionHistory_session_def clearSession_session_def
        sendMessage_pythonScript_def getSessionHistory_pythonScript_def
        clearSession_pythonScript_def)

text \<open>A new service switched to the session \<open>s2\<close>.\<close>

theorem current_session_routing_witness:
  "getCurrentSessionId (setSessionId ''s2'' new_AIAgentService) = ''s2''
   \<and> clearSession_pythonScript (setSessionId ''s2'' new_AIAgentService) None
       = clear_script ''/Volumes/workplace/SMUS-admin-agent'' ''s2''"
  using current_session_routing
          [where s = "''s2''" and this = "setSessionId ''s2'' new_AIAgentService"]
        current_session_routing [where s = "''s2''" and this = new_AIAgentService]
  by (simp add: setSessionId_def new_AIAgentService_def)

end
